theory Spec2Isabelle
  imports Main
begin

section \<open>JavaScript strings\<close>

text \<open>
  A JavaScript string is the sequence of its UTF-16 code units. A code unit is an integer
  here (from 0 to 65535 in an actual string; no definition depends on these bounds), so
  that every character the white space tests of the language look at can be written.
  \<open>str\<close> gives the code units of a text written in ASCII.
\<close>

type_synonym jsstring = "int list"

definition str :: "string \<Rightarrow> jsstring" where
  "str s = map of_char s"

text \<open>
  White space as \<open>String.prototype.trim\<close> and the class \<open>\s\<close> of regular expressions
  read it: the WhiteSpace and LineTerminator code points of the language. These are tab,
  line feed, vertical tab, form feed, carriage return, space, U+00A0, U+1680, U+2000 to
  U+200A, U+2028, U+2029, U+202F, U+205F, U+3000 and U+FEFF.
\<close>

definition is_space :: "int \<Rightarrow> bool" where
  "is_space c =
     (c \<in> {0x09, 0x0A, 0x0B, 0x0C, 0x0D, 0x20, 0xA0, 0x1680, 0x2028, 0x2029, 0x202F, 0x205F,
            0x3000, 0xFEFF}
      \<or> (0x2000 \<le> c \<and> c \<le> 0x200A))"

definition trim :: "jsstring \<Rightarrow> jsstring" where
  "trim s = rev (dropWhile is_space (rev (dropWhile is_space s)))"


section \<open>JavaScript values\<close>

text \<open>
  The controller handles values that TypeScript types as \<open>any\<close>: the parsed invocation
  file, the transaction object returned by the node. They are modelled by one datatype of
  JavaScript values. Numbers are integers here (fractions and NaN are not represented);
  object properties are an association list in insertion order.
\<close>

datatype jsval =
    JUndefined
  | JNull
  | JBool bool
  | JNum int
  | JStr jsstring
  | JArr "jsval list"
  | JObj "(jsstring \<times> jsval) list"

text \<open>Errors are values: every \<open>throw\<close> and every rejected promise is an \<open>Inl\<close>.\<close>

datatype error = TypeError | SyntaxError | ReadFailure | RpcFailure

text \<open>JavaScript truthiness, as used by \<open>&&\<close>, \<open>||\<close>, \<open>!\<close> and the conditional operator.\<close>

fun truthy :: "jsval \<Rightarrow> bool" where
  "truthy JUndefined = False"
| "truthy JNull = False"
| "truthy (JBool b) = b"
| "truthy (JNum n) = (n \<noteq> 0)"
| "truthy (JStr s) = (s \<noteq> [])"
| "truthy (JArr xs) = True"
| "truthy (JObj kvs) = True"

text \<open>
  Property read \<open>v.k\<close> for a data property \<open>k\<close>: reading from \<open>undefined\<close> or
  \<open>null\<close> throws a TypeError, an object yields the stored value or \<open>undefined\<close>, and
  every other value has no such property (the keys read by the controller are
  \<open>contract\<close>, \<open>vmstate\<close> and \<open>confirmations\<close>, none of which a primitive or an array
  carries).
\<close>

fun get_prop :: "jsval \<Rightarrow> jsstring \<Rightarrow> error + jsval" where
  "get_prop JUndefined k = Inl TypeError"
| "get_prop JNull k = Inl TypeError"
| "get_prop (JObj kvs) k = Inr (case map_of kvs k of None \<Rightarrow> JUndefined | Some v \<Rightarrow> v)"
| "get_prop v k = Inr JUndefined"

fun is_object :: "jsval \<Rightarrow> bool" where
  "is_object (JObj kvs) = True"
| "is_object v = False"

text \<open>\<open>xs.filter((_, i) => P(i))\<close>: a filter on the index alone.\<close>

definition filter_index :: "(nat \<Rightarrow> bool) \<Rightarrow> 'a list \<Rightarrow> 'a list" where
  "filter_index P xs = map snd (filter (\<lambda>(i, x). P i) (zip [0..<length xs] xs))"

text \<open>\<open>xs[i]\<close> on an array: \<open>undefined\<close> outside the range, never an exception.\<close>

definition js_index :: "jsval list \<Rightarrow> int \<Rightarrow> jsval" where
  "js_index xs i = (if 0 \<le> i \<and> nat i < length xs then xs ! nat i else JUndefined)"


section \<open>View requests on the list of steps\<close>

text \<open>
  The \<open>moveStep\<close> branch of \<open>onRequest\<close>: the value it computes as \<open>newFileContents\<close>
  and hands to \<open>applyEdit\<close>.
\<close>

definition moveStep :: "int \<Rightarrow> int \<Rightarrow> jsval list \<Rightarrow> jsval list" where
  "moveStep from to fileContents =
     (let oldFileContents = fileContents;
          newFileContents = filter_index (\<lambda>i. int i \<noteq> from) oldFileContents;
          to' = (if to > from then to - 1 else to)
      in filter_index (\<lambda>i. int i < to') newFileContents
           @ [js_index oldFileContents from]
           @ filter_index (\<lambda>i. int i \<ge> to') newFileContents)"

text \<open>
  The same operation in the words of the specification: remove the element at \<open>from\<close>,
  then insert it at \<open>to\<close>, read against the list after the removal (a target beyond
  \<open>from\<close> is decremented by one).
\<close>

definition remove_at :: "nat \<Rightarrow> 'a list \<Rightarrow> 'a list" where
  "remove_at i xs = take i xs @ drop (Suc i) xs"

definition insert_at :: "nat \<Rightarrow> 'a \<Rightarrow> 'a list \<Rightarrow> 'a list" where
  "insert_at i x xs = take i xs @ x # drop i xs"

definition moveStep_spec :: "nat \<Rightarrow> nat \<Rightarrow> 'a list \<Rightarrow> 'a list" where
  "moveStep_spec from to xs =
     insert_at (if to > from then to - 1 else to) (xs ! from) (remove_at from xs)"


section \<open>The data of the panel controller\<close>

text \<open>
  Objects that the controller shares by reference live in a store: the three dictionaries
  of the completion data are addressed objects, and an \<open>AutoCompleteData\<close> value holds
  their addresses. A spread \<open>{ ...d }\<close> of a dictionary allocates a new object with the
  same entries; a spread of the completion data copies the three references.
  A dictionary keeps its keys in insertion order.
\<close>

type_synonym addr = nat
type_synonym 'v dict = "(jsstring \<times> 'v) list"

record manifest =
  abi_hash :: jsstring
  manifest_json :: jsval

record AutoCompleteData =
  contractPaths :: addr
  contractHashes :: addr
  contractManifests :: addr

record heap =
  pathsObjs :: "addr \<Rightarrow> jsstring list dict"
  hashesObjs :: "addr \<Rightarrow> jsval dict"
  manifestsObjs :: "addr \<Rightarrow> manifest dict"
  nextAddr :: addr

datatype TransactionStatus = Pending | Ok | Error

text \<open>A \<open>RecentTransaction\<close>; an absent \<open>tx\<close> field is \<open>JUndefined\<close>.\<close>

record RecentTransaction =
  txid :: jsstring
  blockchain :: jsstring
  tx :: jsval
  state :: TransactionStatus

record InvokeFileViewState =
  fileContents :: "jsval list"
  autoCompleteData :: AutoCompleteData
  errorText :: jsstring
  recentTransactions :: "RecentTransaction list"
  collapseTransactions :: bool
  selectedTransactionId :: "jsstring option"

text \<open>
  The node connection. Each remote call either throws (\<open>Inl\<close>) or returns a value; the
  answers of the node during one operation of the controller are a function of the
  argument of the call.
\<close>

record rpc_client =
  getRawTransaction :: "jsstring \<Rightarrow> error + jsval"
  getContractState :: "jsstring \<Rightarrow> error + manifest"

record connection =
  rpcClient :: "rpc_client option"
  blockchainType :: jsstring
  blockchainName :: jsstring
  configPath :: jsstring
  walletNames :: "jsstring list"

text \<open>What the controller shows or does to its surroundings, in order.\<close>

datatype effect =
    ShowErrorMessage jsstring
  | ShowWarningMessage jsstring
  | DocumentSaved

text \<open>The edited document: its path and what \<open>getText()\<close> gives (or that it throws).\<close>

record text_document =
  fsPath :: jsstring
  getText :: "error + jsstring"

text \<open>
  The controller: its view state and the \<open>isClosed\<close> flag of the panel (both kept by
  the base class), its document, the active connection, the shared completion data
  \<open>this.autoComplete.data\<close>, the store and the log of effects.
\<close>

record controller =
  viewState :: InvokeFileViewState
  document :: text_document
  isClosed :: bool
  activeConnection :: "connection option"
  autoCompleteBase :: AutoCompleteData
  store :: heap
  effects :: "effect list"

text \<open>
  Functions the controller imports and whose code is not part of the sources at hand:
  the path library of the platform, \<open>dedupeAndSort\<close> and \<open>JSONC.parse\<close>. They are
  parameters of the model.
\<close>

record deps =
  path_dirname :: "jsstring \<Rightarrow> jsstring"
  path_basename :: "jsstring \<Rightarrow> jsstring"
  path_isAbsolute :: "jsstring \<Rightarrow> bool"
  path_relative :: "jsstring \<Rightarrow> jsstring \<Rightarrow> jsstring"
  dedupeAndSort :: "jsstring list \<Rightarrow> jsstring list"
  JSONC_parse :: "jsstring \<Rightarrow> error + jsval"

text \<open>The view state the constructor passes to the base class.\<close>

definition initial_viewState :: "AutoCompleteData \<Rightarrow> InvokeFileViewState" where
  "initial_viewState acd =
     \<lparr>fileContents = [], autoCompleteData = acd, errorText = [], recentTransactions = [],
      collapseTransactions = True, selectedTransactionId = None\<rparr>"


section \<open>Reading the document: onFileUpdate\<close>

text \<open>
  Modelled from the spec: \<open>updateViewState\<close> of the base class \<open>PanelControllerBase\<close>,
  whose code is not among the sources. It merges the given fields into the view state
  and publishes the snapshot as one replacement. The fields given are a function on the
  view state here.
\<close>

definition updateViewState ::
  "(InvokeFileViewState \<Rightarrow> InvokeFileViewState) \<Rightarrow> controller \<Rightarrow> controller"
where
  "updateViewState updates c = c\<lparr>viewState := updates (viewState c)\<rparr>"

definition parse_problem_text :: "jsstring \<Rightarrow> jsstring" where
  \<open>parse_problem_text name =
     str ''There was a problem parsing "'' @ name @
     str ''". Try opening the file using the built-in editor and confirm that it contains valid JSON.''\<close>

definition read_error_text :: "jsstring \<Rightarrow> jsstring" where
  "read_error_text p = str ''There was an error reading '' @ p"

fun is_array :: "jsval \<Rightarrow> bool" where
  "is_array (JArr xs) = True"
| "is_array v = False"

text \<open>
  The body of the inner \<open>try\<close> of \<open>onFileUpdate\<close>, up to the value stored as
  \<open>fileContents\<close>: blank text is read as \<open>[]\<close>, a falsy parse result is replaced by the
  empty array (\<open>JSONC.parse(fileText) || []\<close>), and a value that is not an array is
  wrapped in one.
\<close>

definition parse_file :: "deps \<Rightarrow> jsstring \<Rightarrow> error + jsval list" where
  "parse_file D fileText0 =
     (let fileText = (if length (trim fileText0) = 0 then str ''[]'' else fileText0)
      in case JSONC_parse D fileText of
           Inl e \<Rightarrow> Inl e
         | Inr parsed \<Rightarrow>
             (let fileContents = (if truthy parsed then parsed else JArr [])
              in Inr (case fileContents of JArr steps \<Rightarrow> steps | v \<Rightarrow> [v])))"

text \<open>
  \<open>onFileUpdate\<close>: nothing on a closed panel; a document that cannot be read gives the
  reading error; otherwise the text is parsed, and the steps are stored and the error
  text cleared, or the error text alone is set.
\<close>

definition onFileUpdate :: "deps \<Rightarrow> controller \<Rightarrow> controller" where
  "onFileUpdate D c =
     (if isClosed c then c
      else case getText (document c) of
        Inl e \<Rightarrow>
          updateViewState (\<lambda>v. v\<lparr>errorText := read_error_text (fsPath (document c))\<rparr>) c
      | Inr fileText \<Rightarrow>
          (case parse_file D fileText of
             Inl e \<Rightarrow>
               updateViewState
                 (\<lambda>v. v\<lparr>errorText :=
                          parse_problem_text (path_basename D (fsPath (document c)))\<rparr>) c
           | Inr steps \<Rightarrow>
               updateViewState (\<lambda>v. v\<lparr>fileContents := steps, errorText := []\<rparr>) c))"

section \<open>Completion data: augmentAutoCompleteData\<close>

text \<open>
  Dictionary operations. Writing an existing key keeps its position, a new key goes to the
  end (the keys here are paths and \<open>0x\<close> hashes, for which JavaScript keeps insertion
  order). Reading a missing key of the hash dictionary gives \<open>undefined\<close>.
\<close>

definition dict_get :: "'v dict \<Rightarrow> jsstring \<Rightarrow> 'v option" where
  "dict_get d k = map_of d k"

fun dict_set :: "'v dict \<Rightarrow> jsstring \<Rightarrow> 'v \<Rightarrow> 'v dict" where
  "dict_set [] k v = [(k, v)]"
| "dict_set ((k', v') # d) k v =
     (if k' = k then (k, v) # d else (k', v') # dict_set d k v)"

definition dict_keys :: "'v dict \<Rightarrow> jsstring list" where
  "dict_keys d = map fst d"

definition hash_lookup :: "jsval dict \<Rightarrow> jsstring \<Rightarrow> jsval" where
  "hash_lookup d k = (case map_of d k of None \<Rightarrow> JUndefined | Some v \<Rightarrow> v)"

text \<open>The spreads \<open>{ ...result.contractPaths }\<close> and \<open>{ ...result.contractHashes }\<close>.\<close>

definition copy_paths :: "addr \<Rightarrow> heap \<Rightarrow> addr \<times> heap" where
  "copy_paths a h =
     (nextAddr h,
      h\<lparr>pathsObjs := (pathsObjs h)(nextAddr h := pathsObjs h a), nextAddr := Suc (nextAddr h)\<rparr>)"

definition copy_hashes :: "addr \<Rightarrow> heap \<Rightarrow> addr \<times> heap" where
  "copy_hashes a h =
     (nextAddr h,
      h\<lparr>hashesObjs := (hashesObjs h)(nextAddr h := hashesObjs h a), nextAddr := Suc (nextAddr h)\<rparr>)"

text \<open>
  The inner loop \<open>for (const contractPath of contractPaths)\<close>. The array iterator is
  live: the loop pushes onto the array it walks, and the pushed elements are visited in
  their turn. \<open>i\<close> is the position of the iterator. The loop ends when the iterator
  reaches the end of the array, which need not happen: the result is \<open>None\<close> then.
\<close>

partial_function (option) alias_loop ::
  "deps \<Rightarrow> jsstring \<Rightarrow> addr \<Rightarrow> nat \<Rightarrow> jsstring list \<Rightarrow> heap
     \<Rightarrow> (jsstring list \<times> heap) option"
where [code]:
  "alias_loop D baseHref hashes i paths h =
     (if i < length paths then
        (if path_isAbsolute D (paths ! i) then
           alias_loop D baseHref hashes (Suc i)
             (paths @ [path_relative D baseHref (paths ! i)])
             (h\<lparr>hashesObjs := (hashesObjs h)
                  (hashes := dict_set (hashesObjs h hashes)
                     (path_relative D baseHref (paths ! i))
                     (hash_lookup (hashesObjs h hashes) (paths ! i)))\<rparr>)
         else alias_loop D baseHref hashes (Suc i) paths h)
      else Some (paths, h))"

text \<open>
  The outer loop over \<open>Object.keys(data.contractPaths)\<close>; \<open>hash\<close> ranges over the keys
  of the object that \<open>data.contractPaths[hash]\<close> reads.
\<close>

fun paths_loop ::
  "deps \<Rightarrow> jsstring \<Rightarrow> AutoCompleteData \<Rightarrow> AutoCompleteData \<Rightarrow> jsstring list \<Rightarrow> heap
     \<Rightarrow> heap option"
where
  "paths_loop D baseHref data result [] h = Some h"
| "paths_loop D baseHref data result (hash # hashes) h =
     (case alias_loop D baseHref (contractHashes result) 0
             (case dict_get (pathsObjs h (contractPaths data)) hash of
                None \<Rightarrow> [] | Some ps \<Rightarrow> ps) h of
        None \<Rightarrow> None
      | Some (paths, h') \<Rightarrow>
          paths_loop D baseHref data result hashes
            (h'\<lparr>pathsObjs := (pathsObjs h')
                  (contractPaths result :=
                     dict_set (pathsObjs h' (contractPaths result)) hash
                       (dedupeAndSort D paths))\<rparr>))"

text \<open>
  The filter \<open>_.contract?.startsWith("0x")\<close> on one step: reading \<open>contract\<close> from
  \<open>null\<close> or \<open>undefined\<close> throws; an absent or \<open>null\<close> contract ends the optional chain
  with \<open>undefined\<close>; a string is tested; any other value has no \<open>startsWith\<close> to call,
  which throws.
\<close>

definition contract_is_hash :: "jsval \<Rightarrow> error + bool" where
  "contract_is_hash step =
     (case get_prop step (str ''contract'') of
        Inl e \<Rightarrow> Inl e
      | Inr JUndefined \<Rightarrow> Inr False
      | Inr JNull \<Rightarrow> Inr False
      | Inr (JStr s) \<Rightarrow> Inr (take 2 s = str ''0x'')
      | Inr v \<Rightarrow> Inl TypeError)"

text \<open>\<open>_.contract || ""\<close> on a step that passed the filter.\<close>

definition contract_or_empty :: "jsval \<Rightarrow> jsstring" where
  "contract_or_empty step =
     (case get_prop step (str ''contract'') of Inr (JStr s) \<Rightarrow> s | _ \<Rightarrow> [])"

text \<open>
  \<open>fileContents.filter(...).map(...)\<close>: the list of contract hashes of the file, or the
  exception of the first step on which the filter throws.
\<close>

fun contract_hashes :: "jsval list \<Rightarrow> error + jsstring list" where
  "contract_hashes [] = Inr []"
| "contract_hashes (step # steps) =
     (case contract_is_hash step of
        Inl e \<Rightarrow> Inl e
      | Inr keep \<Rightarrow>
          (case contract_hashes steps of
             Inl e \<Rightarrow> Inl e
           | Inr rest \<Rightarrow> Inr (if keep then contract_or_empty step # rest else rest)))"

text \<open>
  The loop over the contract hashes: each fetch sits in its own \<open>try\<close> with an empty
  \<open>catch\<close>; a manifest that arrives is stored under its own \<open>abi.hash\<close> in the object
  \<open>result.contractManifests\<close> refers to.
\<close>

fun manifests_loop :: "rpc_client \<Rightarrow> addr \<Rightarrow> jsstring list \<Rightarrow> heap \<Rightarrow> heap" where
  "manifests_loop rpc manifests [] h = h"
| "manifests_loop rpc manifests (contractHash # rest) h =
     manifests_loop rpc manifests rest
       (case getContractState rpc contractHash of
          Inl e \<Rightarrow> h
        | Inr m \<Rightarrow>
            h\<lparr>manifestsObjs := (manifestsObjs h)
                 (manifests := dict_set (manifestsObjs h manifests) (abi_hash m) m)\<rparr>)"

text \<open>
  \<open>augmentAutoCompleteData(data)\<close> on the controller \<open>c\<close>. The result is \<open>None\<close> when
  the alias loop does not end; otherwise the store after the call, with the completion
  data returned or the exception thrown.
\<close>

definition augmentAutoCompleteData ::
  "deps \<Rightarrow> controller \<Rightarrow> AutoCompleteData \<Rightarrow> ((error + AutoCompleteData) \<times> heap) option"
where
  "augmentAutoCompleteData D c data =
     (let (pa, h1) = copy_paths (contractPaths data) (store c);
          (ha, h2) = copy_hashes (contractHashes data) h1;
          result = data\<lparr>contractPaths := pa, contractHashes := ha\<rparr>;
          baseHref = path_dirname D (fsPath (document c))
      in case paths_loop D baseHref data result
                (dict_keys (pathsObjs h2 (contractPaths data))) h2 of
           None \<Rightarrow> None
         | Some h3 \<Rightarrow>
             (case activeConnection c of
                None \<Rightarrow> Some (Inr result, h3)
              | Some conn \<Rightarrow>
                  (case rpcClient conn of
                     None \<Rightarrow> Some (Inr result, h3)
                   | Some rpc \<Rightarrow>
                       (case contract_hashes (fileContents (viewState c)) of
                          Inl e \<Rightarrow> Some (Inl e, h3)
                        | Inr hashes \<Rightarrow>
                            Some (Inr result,
                              manifests_loop rpc (contractManifests result) hashes h3)))))"

section \<open>The poll cycle: periodicViewStateUpdate\<close>

text \<open>The guard \<open>_.tx && (_.tx as any).confirmations\<close> of the poll.\<close>

definition has_confirmations :: "RecentTransaction \<Rightarrow> bool" where
  "has_confirmations t =
     (truthy (tx t) \<and>
      (case get_prop (tx t) (str ''confirmations'') of Inl e \<Rightarrow> False | Inr v \<Rightarrow> truthy v))"

text \<open>
  \<open>vmstate === "FAULT" ? "error" : vmstate ? "ok" : "pending"\<close>.
\<close>

definition vmstate_status :: "jsval \<Rightarrow> TransactionStatus" where
  "vmstate_status vmstate =
     (if vmstate = JStr (str ''FAULT'') then Error else if truthy vmstate then Ok else Pending)"

text \<open>
  \<open>await connection?.rpcClient.getRawTransaction(_.txid, true)\<close>: the ids asked of the
  node (none or one) and what the expression evaluates to. Without a connection the
  optional chain gives \<open>undefined\<close> and nothing is asked; a connection without a client
  throws.
\<close>

definition query_transaction ::
  "connection option \<Rightarrow> jsstring \<Rightarrow> jsstring list \<times> (error + jsval)"
where
  "query_transaction connection txid' =
     (case connection of
        None \<Rightarrow> ([], Inr JUndefined)
      | Some conn \<Rightarrow>
          (case rpcClient conn of
             None \<Rightarrow> ([], Inl TypeError)
           | Some rpc \<Rightarrow> ([txid'], getRawTransaction rpc txid')))"

text \<open>
  The function mapped over \<open>recentTransactions\<close>: the ids it asks of the node and the
  entry it returns. Everything after the guard is inside \<open>try\<close>; its \<open>catch\<close> returns
  the entry as it was.
\<close>

definition poll_entry ::
  "connection option \<Rightarrow> RecentTransaction \<Rightarrow> jsstring list \<times> RecentTransaction"
where
  "poll_entry connection t =
     (if has_confirmations t then ([], t)
      else
        (let (queries, answer) = query_transaction connection (txid t)
         in (queries,
             case answer of
               Inl e \<Rightarrow> t
             | Inr txv \<Rightarrow>
                 (case get_prop txv (str ''vmstate'') of
                    Inl e \<Rightarrow> t
                  | Inr vmstate \<Rightarrow>
                      \<lparr>txid = txid t, blockchain = blockchain t, tx = txv,
                       state = vmstate_status vmstate\<rparr>))))"

text \<open>
  One poll cycle. Its outcome is \<open>None\<close> when the completion data loop does not end;
  otherwise the exception it ends with, if any, the transaction ids it asked of the node,
  in order, and the controller afterwards. When \<open>augmentAutoCompleteData\<close> throws,
  \<open>updateViewState\<close> is not reached.
\<close>

definition periodicViewStateUpdate ::
  "deps \<Rightarrow> controller \<Rightarrow> (error option \<times> jsstring list \<times> controller) option"
where
  "periodicViewStateUpdate D c =
     (let connection = activeConnection c;
          polled = map (poll_entry connection) (recentTransactions (viewState c));
          queries = concat (map fst polled);
          recentTransactions' = map snd polled
      in case augmentAutoCompleteData D c (autoCompleteBase c) of
           None \<Rightarrow> None
         | Some (Inl e, h) \<Rightarrow> Some (Some e, queries, c\<lparr>store := h\<rparr>)
         | Some (Inr autoCompleteData', h) \<Rightarrow>
             Some (None, queries,
               updateViewState
                 (\<lambda>v. v\<lparr>autoCompleteData := autoCompleteData',
                         recentTransactions := recentTransactions'\<rparr>)
                 (c\<lparr>store := h\<rparr>)))"

section \<open>Running the file: runFile\<close>

definition MAX_RECENT_TXS :: nat where
  "MAX_RECENT_TXS = 10"

text \<open>
  The pattern \<open>/\s0x[0-9a-f]+\s/gi\<close>. With the flag \<open>i\<close> (and without the flag
  \<open>u\<close>) a letter of the pattern matches the code units with the same upper case form,
  which for \<open>x\<close> and \<open>a\<close> to \<open>f\<close> are the letter in either case only.
  \<open>match_here s\<close> is the length of the match that starts at the first code unit of
  \<open>s\<close>, if there is one: the run of hexadecimal digits is greedy, and since no digit is
  white space only the whole run can be followed by the closing \<open>\s\<close>.
\<close>

definition is_hex :: "int \<Rightarrow> bool" where
  "is_hex c = (c \<in> set (str ''0123456789abcdefABCDEF''))"

fun match_here :: "jsstring \<Rightarrow> nat option" where
  "match_here (c0 # c1 # c2 # rest) =
     (if is_space c0 \<and> [c1] = str ''0'' \<and> ([c2] = str ''x'' \<or> [c2] = str ''X'')
         \<and> takeWhile is_hex rest \<noteq> []
         \<and> dropWhile is_hex rest \<noteq> []
         \<and> is_space (hd (dropWhile is_hex rest))
      then Some (3 + length (takeWhile is_hex rest) + 1)
      else None)"
| "match_here s = None"

lemma match_here_pos: "match_here s = Some n \<Longrightarrow> 0 < n"
  by (cases s rule: match_here.cases) (auto split: if_splits)

text \<open>
  \<open>matchAll\<close>: the matches from left to right; after a match the search goes on behind
  its last character, otherwise at the next character.
\<close>

function matchAll :: "jsstring \<Rightarrow> jsstring list" where
  "matchAll [] = []"
| "matchAll (c # cs) =
     (case match_here (c # cs) of
        None \<Rightarrow> matchAll cs
      | Some n \<Rightarrow> take n (c # cs) # matchAll (drop n (c # cs)))"
  by pat_completeness auto
termination
  by (relation "measure length") (auto dest: match_here_pos)

text \<open>The transaction ids of a runner message, in the order of the loop.\<close>

definition extract_txids :: "jsstring \<Rightarrow> jsstring list" where
  "extract_txids msg = map trim (matchAll (str '' '' @ msg @ str '' ''))"

definition pending_transaction :: "jsstring \<Rightarrow> jsstring \<Rightarrow> RecentTransaction" where
  "pending_transaction name txid' =
     \<lparr>txid = txid', blockchain = name, tx = JUndefined, state = Pending\<rparr>"

text \<open>The loop of \<open>unshift\<close> calls, one per match.\<close>

fun unshift_all ::
  "jsstring \<Rightarrow> jsstring list \<Rightarrow> RecentTransaction list \<Rightarrow> RecentTransaction list"
where
  "unshift_all name [] rts = rts"
| "unshift_all name (txid' # rest) rts =
     unshift_all name rest (pending_transaction name txid' # rts)"

text \<open>\<open>if (recentTransactions.length > MAX_RECENT_TXS) recentTransactions.length = MAX_RECENT_TXS\<close>.\<close>

definition truncate_recent :: "RecentTransaction list \<Rightarrow> RecentTransaction list" where
  "truncate_recent rts =
     (if length rts > MAX_RECENT_TXS then take MAX_RECENT_TXS rts else rts)"

text \<open>
  What the surroundings answer during one call of \<open>runFile\<close>: the connection that
  \<open>activeConnection.connect()\<close> leaves behind, the account picked in the quick pick
  (given its items; \<open>None\<close> when it is dismissed), and the result of the external runner
  for its arguments.
\<close>

record run_result =
  isError :: bool
  message :: jsstring

record run_env =
  connect :: "connection option"
  multipleChoice :: "jsstring list \<Rightarrow> jsstring option"
  runSync :: "jsstring list \<Rightarrow> run_result"

definition express_warning :: jsstring where
  "express_warning = str ''Currently, you must be connected to a Neo Express blockchain to invoke contracts. Support for TestNet and MainNet contract invocation is coming soon.''"

text \<open>\<open>runFile\<close> from the test of the connection on.\<close>

definition run_connected :: "run_env \<Rightarrow> jsstring \<Rightarrow> controller \<Rightarrow> controller" where
  "run_connected env path c =
     (case activeConnection c of
        None \<Rightarrow> c\<lparr>effects := effects c @ [ShowWarningMessage express_warning]\<rparr>
      | Some conn \<Rightarrow>
          if blockchainType conn = str ''express'' then
            (case multipleChoice env (str ''genesis'' # walletNames conn) of
               None \<Rightarrow> c
             | Some account \<Rightarrow>
                 if account = [] then c
                 else
                   (let c1 = updateViewState (\<lambda>v. v\<lparr>collapseTransactions := False\<rparr>)
                              (c\<lparr>effects := effects c @ [DocumentSaved]\<rparr>);
                        result = runSync env
                          [str ''contract'', str ''invoke'', str ''-i'', configPath conn, path,
                           account]
                    in if isError result then
                         c1\<lparr>effects := effects c1 @ [ShowErrorMessage (message result)]\<rparr>
                       else
                         updateViewState
                           (\<lambda>v. v\<lparr>recentTransactions :=
                                   truncate_recent
                                     (unshift_all (blockchainName conn)
                                        (extract_txids (message result))
                                        (recentTransactions (viewState c1)))\<rparr>) c1))
          else c\<lparr>effects := effects c @ [ShowWarningMessage express_warning]\<rparr>)"

text \<open>
  \<open>runFile(path)\<close>. Without a connection it connects and runs one poll cycle first; an
  exception of that cycle ends the call. The outcome is as for the poll cycle.
\<close>

definition runFile ::
  "deps \<Rightarrow> run_env \<Rightarrow> jsstring \<Rightarrow> controller
     \<Rightarrow> (error option \<times> jsstring list \<times> controller) option"
where
  "runFile D env path c =
     (case activeConnection c of
        Some conn \<Rightarrow> Some (None, [], run_connected env path c)
      | None \<Rightarrow>
          (case periodicViewStateUpdate D (c\<lparr>activeConnection := connect env\<rparr>) of
             None \<Rightarrow> None
           | Some (Some e, queries, c1) \<Rightarrow> Some (Some e, queries, c1)
           | Some (None, queries, c1) \<Rightarrow> Some (None, queries, run_connected env path c1)))"

section \<open>Events of a panel\<close>

text \<open>
  What happens to a controller over time: the document changes and \<open>onFileUpdate\<close>
  reads it, the timer fires and \<open>refreshLoop\<close> runs a poll cycle, the view asks to run
  the whole file, or the active connection is replaced from outside. Each event is taken
  as one step here: the interleaving of handlers at their \<open>await\<close> points is not
  represented. A step gives the transaction ids asked of the node and the controller
  afterwards; an exception of a handler leaves the controller as the handler left it.
\<close>

datatype event =
    DocumentChanged "error + jsstring"
  | Refresh
  | RunAll run_env
  | ConnectionChanged "connection option"

fun step_event :: "deps \<Rightarrow> event \<Rightarrow> controller \<Rightarrow> (jsstring list \<times> controller) option" where
  "step_event D (DocumentChanged t) c =
     Some ([], onFileUpdate D (c\<lparr>document := (document c)\<lparr>getText := t\<rparr>\<rparr>))"
| "step_event D Refresh c =
     (if isClosed c then Some ([], c)
      else case periodicViewStateUpdate D c of
             None \<Rightarrow> None
           | Some (e, queries, c') \<Rightarrow> Some (queries, c'))"
| "step_event D (RunAll env) c =
     (case runFile D env (fsPath (document c)) c of
        None \<Rightarrow> None
      | Some (e, queries, c') \<Rightarrow> Some (queries, c'))"
| "step_event D (ConnectionChanged k) c = Some ([], c\<lparr>activeConnection := k\<rparr>)"

fun run_events ::
  "deps \<Rightarrow> event list \<Rightarrow> controller \<Rightarrow> (jsstring list \<times> controller) option"
where
  "run_events D [] c = Some ([], c)"
| "run_events D (e # es) c =
     (case step_event D e c of
        None \<Rightarrow> None
      | Some (q1, c1) \<Rightarrow>
          (case run_events D es c1 of
             None \<Rightarrow> None
           | Some (q2, c2) \<Rightarrow> Some (q1 @ q2, c2)))"


section \<open>Predicates used to state the properties\<close>

text \<open>
  A node that reports a truthy \<open>vmstate\<close> for a transaction only together with a truthy
  \<open>confirmations\<close> count.
\<close>

definition reports_confirmations :: "connection option \<Rightarrow> bool" where
  "reports_confirmations connection =
     (\<forall>conn rpc i v vmstate.
        connection = Some conn \<and> rpcClient conn = Some rpc
        \<and> getRawTransaction rpc i = Inr v \<and> get_prop v (str ''vmstate'') = Inr vmstate
        \<and> truthy vmstate
        \<longrightarrow> truthy v \<and> (\<exists>n. get_prop v (str ''confirmations'') = Inr n \<and> truthy n))"

text \<open>An entry whose state is not \<open>Pending\<close> carries its confirmations.\<close>

definition settled_is_confirmed :: "RecentTransaction \<Rightarrow> bool" where
  "settled_is_confirmed t = (state t = Pending \<or> has_confirmations t)"

text \<open>
  The ids a runner reports are new: whatever its arguments, the ids extracted from its
  message are pairwise distinct and none of them is the id of a tracked transaction.
\<close>

definition runner_ids_fresh :: "run_env \<Rightarrow> RecentTransaction list \<Rightarrow> bool" where
  "runner_ids_fresh env rts =
     (\<forall>args. distinct (extract_txids (message (runSync env args)))
        \<and> set (extract_txids (message (runSync env args))) \<inter> set (map txid rts) = {})"

text \<open>Along a run of events, every runner reports new ids.\<close>

fun fresh_runs :: "deps \<Rightarrow> event list \<Rightarrow> controller \<Rightarrow> bool" where
  "fresh_runs D [] c = True"
| "fresh_runs D (e # es) c =
     ((case e of RunAll env \<Rightarrow> runner_ids_fresh env (recentTransactions (viewState c))
              | _ \<Rightarrow> True)
      \<and> (case step_event D e c of None \<Rightarrow> True | Some (q, c') \<Rightarrow> fresh_runs D es c'))"

text \<open>The manifests that arrive for a list of contract hashes, in order.\<close>

definition fetched :: "rpc_client \<Rightarrow> jsstring list \<Rightarrow> manifest list" where
  "fetched rpc contractHashes' =
     concat (map (\<lambda>contractHash.
        case getContractState rpc contractHash of Inl e \<Rightarrow> [] | Inr m \<Rightarrow> [m]) contractHashes')"

text \<open>Storing a list of manifests in a dictionary, each under its own hash, in order.\<close>

fun store_manifests :: "manifest list \<Rightarrow> manifest dict \<Rightarrow> manifest dict" where
  "store_manifests [] d = d"
| "store_manifests (m # ms) d = store_manifests ms (dict_set d (abi_hash m) m)"

text \<open>What is seen of an outcome: the ids asked of the node and, per entry, id and state.\<close>

definition observe ::
  "(jsstring list \<times> controller) option
     \<Rightarrow> (jsstring list \<times> (jsstring \<times> TransactionStatus) list) option"
where
  "observe r =
     map_option (\<lambda>(queries, c).
        (queries, map (\<lambda>t. (txid t, state t)) (recentTransactions (viewState c)))) r"

text \<open>
  The property of the path library that ends the alias loop: a relative path is never
  absolute.
\<close>

definition relative_never_absolute :: "deps \<Rightarrow> bool" where
  "relative_never_absolute D = (\<forall>b p. \<not> path_isAbsolute D (path_relative D b p))"

text \<open>Every connection that a run of events brings in is to such a node.\<close>

fun honest_event :: "event \<Rightarrow> bool" where
  "honest_event (ConnectionChanged k) = reports_confirmations k"
| "honest_event (RunAll env) = reports_confirmations (connect env)"
| "honest_event e = True"

section \<open>Concrete collaborators for the examples\<close>

text \<open>
  A stand-in for \<open>JSONC.parse\<close> on the handful of texts the examples use: it gives the
  value JSON assigns to each of them and rejects everything else.
\<close>

definition sample_parse :: "jsstring \<Rightarrow> error + jsval" where
  "sample_parse s =
     (if s = str ''[]'' then Inr (JArr [])
      else if s = str ''{}'' then Inr (JObj [])
      else if s = str ''null'' then Inr JNull
      else if s = str ''[null]'' then Inr (JArr [JNull])
      else if s = str ''0'' then Inr (JNum 0)
      else if s = str ''7'' then Inr (JNum 7)
      else Inl SyntaxError)"

text \<open>
  A small POSIX-like path library: paths are absolute when they start with a slash, and
  the relative path of \<open>p\<close> below \<open>b\<close> is what follows \<open>b\<close> and the slashes after it.
\<close>

definition sample_deps :: deps where
  "sample_deps =
     \<lparr>path_dirname = (\<lambda>p. rev (tl (dropWhile (\<lambda>ch. [ch] \<noteq> str ''/'') (rev p)))),
      path_basename = (\<lambda>p. rev (takeWhile (\<lambda>ch. [ch] \<noteq> str ''/'') (rev p))),
      path_isAbsolute = (\<lambda>p. take 1 p = str ''/''),
      path_relative = (\<lambda>b p. dropWhile (\<lambda>ch. [ch] = str ''/'') (drop (length b) p)),
      dedupeAndSort = remdups,
      JSONC_parse = sample_parse\<rparr>"

definition sample_doc :: "jsstring \<Rightarrow> text_document" where
  "sample_doc fileText = \<lparr>fsPath = str ''/w/a.neo-invoke.json'', getText = Inr fileText\<rparr>"

definition sample_data :: AutoCompleteData where
  "sample_data = \<lparr>contractPaths = 0, contractHashes = 1, contractManifests = 2\<rparr>"

definition sample_heap :: heap where
  "sample_heap =
     \<lparr>pathsObjs = (\<lambda>a. []), hashesObjs = (\<lambda>a. []), manifestsObjs = (\<lambda>a. []), nextAddr = 3\<rparr>"

text \<open>A freshly constructed controller with no connection, on an empty document.\<close>

definition sample_controller :: controller where
  "sample_controller =
     \<lparr>viewState = initial_viewState sample_data, document = sample_doc [], isClosed = False,
      activeConnection = None,
      autoCompleteBase = sample_data, store = sample_heap, effects = []\<rparr>"

text \<open>
  A node that knows every transaction as confirmed and successful, and no contract; a
  connection to a Neo Express network through it; a runner that reports one submitted
  transaction, and one that fails.
\<close>

definition confirmed_tx :: jsval where
  "confirmed_tx =
     JObj [(str ''confirmations'', JNum 3), (str ''vmstate'', JStr (str ''HALT''))]"

definition sample_rpc :: rpc_client where
  "sample_rpc =
     \<lparr>getRawTransaction = (\<lambda>i. Inr confirmed_tx), getContractState = (\<lambda>h. Inl RpcFailure)\<rparr>"

definition sample_connection :: connection where
  "sample_connection =
     \<lparr>rpcClient = Some sample_rpc, blockchainType = str ''express'', blockchainName = str ''net'',
      configPath = str ''/w/default.neo-express'', walletNames = [str ''alice'']\<rparr>"

definition sample_env :: "run_result \<Rightarrow> run_env" where
  "sample_env r =
     \<lparr>connect = Some sample_connection, multipleChoice = (\<lambda>items. Some (str ''genesis'')),
      runSync = (\<lambda>args. r)\<rparr>"

definition run_ok :: run_result where
  "run_ok = \<lparr>isError = False, message = str ''Transaction 0xab submitted''\<rparr>"


text \<open>Ten pending entries \<open>0x0\<close>, ..., \<open>0x9\<close>, and a connected controller that tracks them.\<close>

definition ten_pending :: "RecentTransaction list" where
  "ten_pending =
     map (\<lambda>ch. pending_transaction (str ''net'') (str ''0x'' @ [ch])) (str ''0123456789'')"

definition connected_controller :: "RecentTransaction list \<Rightarrow> controller" where
  "connected_controller rts =
     sample_controller\<lparr>activeConnection := Some sample_connection,
       viewState := (initial_viewState sample_data)\<lparr>recentTransactions := rts\<rparr>\<rparr>"


text \<open>
  Two more nodes: one that reports every transaction as executed but gives no
  confirmations, and one that knows every transaction but reports neither.
\<close>

definition halted_connection :: connection where
  "halted_connection =
     sample_connection\<lparr>rpcClient := Some
       \<lparr>getRawTransaction = (\<lambda>i. Inr (JObj [(str ''vmstate'', JStr (str ''HALT''))])),
        getContractState = (\<lambda>h. Inl RpcFailure)\<rparr>\<rparr>"

definition plain_connection :: connection where
  "plain_connection =
     sample_connection\<lparr>rpcClient := Some
       \<lparr>getRawTransaction = (\<lambda>i. Inr (JObj [])),
        getContractState = (\<lambda>h. Inl RpcFailure)\<rparr>\<rparr>"

text \<open>A confirmed entry followed by a pending one.\<close>

definition two_entries :: "RecentTransaction list" where
  "two_entries =
     [\<lparr>txid = str ''0x0'', blockchain = str ''net'', tx = confirmed_tx, state = Ok\<rparr>,
      pending_transaction (str ''net'') (str ''0x1'')]"

text \<open>
  A node on which one transaction query and one manifest fetch fail, and a controller
  connected to it: two pending transactions, a file of two steps that name contracts by
  hash, and completion data that knows one contract by an absolute path.
\<close>

definition mixed_rpc :: rpc_client where
  "mixed_rpc =
     \<lparr>getRawTransaction = (\<lambda>i. if i = str ''0x1'' then Inl RpcFailure else Inr confirmed_tx),
      getContractState = (\<lambda>h. if h = str ''0xbad'' then Inl RpcFailure
                               else Inr \<lparr>abi_hash = h, manifest_json = JObj []\<rparr>)\<rparr>"

definition contract_step :: "jsstring \<Rightarrow> jsval" where
  "contract_step h =
     JObj [(str ''contract'', JStr h), (str ''operation'', JStr (str ''transfer''))]"

definition mixed_heap :: heap where
  "mixed_heap =
     \<lparr>pathsObjs =
        (\<lambda>a. if a = 0 then [(str ''0xc0de'', [str ''/w/contracts/token.nef''])] else []),
      hashesObjs =
        (\<lambda>a. if a = 1 then [(str ''/w/contracts/token.nef'', JStr (str ''0xc0de''))] else []),
      manifestsObjs = (\<lambda>a. []),
      nextAddr = 3\<rparr>"

definition mixed_controller :: controller where
  "mixed_controller =
     \<lparr>viewState = (initial_viewState sample_data)
        \<lparr>fileContents := [contract_step (str ''0xbad''), contract_step (str ''0xc0de'')],
         recentTransactions :=
           [pending_transaction (str ''net'') (str ''0x1''),
            pending_transaction (str ''net'') (str ''0x2'')]\<rparr>,
      document = sample_doc [], isClosed = False,
      activeConnection = Some (sample_connection\<lparr>rpcClient := Some mixed_rpc\<rparr>),
      autoCompleteBase = sample_data, store = mixed_heap, effects = []\<rparr>"

text \<open>A controller that has loaded a file of one step and whose document no longer parses.\<close>

definition loaded_controller :: controller where
  "loaded_controller =
     sample_controller
       \<lparr>viewState := (initial_viewState sample_data)
          \<lparr>fileContents := [contract_step (str ''0xc0de'')]\<rparr>,
        document := sample_doc (str ''[{'')\<rparr>"

text \<open>A runner that reports two submitted transactions.\<close>

definition run_two :: run_result where
  "run_two = \<lparr>isError = False, message = str ''Submitted 0xcd and 0xef to the network''\<rparr>"

text \<open>
  The controller \<open>mixed_controller\<close> after its file was given a first step \<open>null\<close>.
\<close>

definition broken_controller :: controller where
  "broken_controller =
     mixed_controller
       \<lparr>viewState := (viewState mixed_controller)
          \<lparr>fileContents := JNull # fileContents (viewState mixed_controller)\<rparr>\<rparr>"

section \<open>Basic properties of strings and of updateViewState\<close>

lemma str_eq_Nil [simp]: "str s = [] \<longleftrightarrow> s = []"
  by (simp add: str_def)

lemma str_inj [simp]: "str a = str b \<longleftrightarrow> a = b"
  by (simp add: str_def inj_on_def inj_map_eq_map)

lemma length_str [simp]: "length (str s) = length s"
  by (simp add: str_def)

lemma updateViewState_simps [simp]:
  "viewState (updateViewState f c) = f (viewState c)"
  "document (updateViewState f c) = document c"
  "isClosed (updateViewState f c) = isClosed c"
  "activeConnection (updateViewState f c) = activeConnection c"
  "autoCompleteBase (updateViewState f c) = autoCompleteBase c"
  "store (updateViewState f c) = store c"
  "effects (updateViewState f c) = effects c"
  by (simp_all add: updateViewState_def)

section \<open>Properties of moveStep\<close>

lemma filter_index_Nil: "filter_index P [] = []"
  by (simp add: filter_index_def)

lemma filter_index_snoc:
  "filter_index P (xs @ [x]) = filter_index P xs @ (if P (length xs) then [x] else [])"
  by (simp add: filter_index_def)

lemma filter_index_less: "filter_index (\<lambda>i. int i < t) xs = take (nat t) xs"
  by (induction xs rule: rev_induct) (auto simp: filter_index_snoc filter_index_Nil)

lemma filter_index_ge: "filter_index (\<lambda>i. int i \<ge> t) xs = drop (nat t) xs"
  by (induction xs rule: rev_induct) (auto simp: filter_index_snoc filter_index_Nil)

lemma filter_index_neq:
  "filter_index (\<lambda>i. int i \<noteq> f) xs =
     (if f < 0 then xs else take (nat f) xs @ drop (Suc (nat f)) xs)"
proof (induction xs rule: rev_induct)
  case Nil
  then show ?case by (simp add: filter_index_Nil)
next
  case (snoc x xs)
  consider "f < 0" | "0 \<le> f" "nat f < length xs" | "f = int (length xs)" | "nat f > length xs"
    by linarith
  then show ?case
    by cases (use snoc in \<open>auto simp: filter_index_snoc\<close>)
qed

lemma moveStep_closed:
  "moveStep from to xs =
     (let ys = (if from < 0 then xs else take (nat from) xs @ drop (Suc (nat from)) xs);
          t = nat (if to > from then to - 1 else to)
      in take t ys @ js_index xs from # drop t ys)"
  by (simp add: moveStep_def filter_index_less filter_index_ge filter_index_neq Let_def)

lemma moveStep_refines:
  assumes "0 \<le> from" "nat from < length xs" "0 \<le> to" "nat to < length xs"
  shows "moveStep from to xs = moveStep_spec (nat from) (nat to) xs"
  using assms
  apply (simp add: moveStep_closed moveStep_spec_def insert_at_def remove_at_def
      js_index_def Let_def)
  apply (auto simp: nat_diff_distrib)
  done

lemma moveStep_same:
  assumes "0 \<le> from" "nat from < length xs"
  shows "moveStep from from xs = xs"
  using assms
  by (simp add: moveStep_closed js_index_def Let_def id_take_nth_drop[symmetric])

lemma moveStep_examples:
  "moveStep 0 2 [A, B, C, D] = [B, A, C, D]"
  "moveStep 3 0 [A, B, C, D] = [D, A, B, C]"
  "moveStep 1 1 [A, B, C, D] = [A, B, C, D]"
  by (simp_all add: moveStep_closed js_index_def)

text \<open>
  Claim C2. For in-range indices \<open>from\<close> and \<open>to\<close>, \<open>moveStep\<close> removes the element at
  \<open>from\<close> and re-inserts it at \<open>to\<close> read against the list after the removal (\<open>to\<close>
  decremented by one when it exceeds \<open>from\<close>), which is \<open>moveStep_spec\<close>; with
  \<open>from = to\<close> the order is unchanged; and on \<open>[A, B, C, D]\<close> the three moves of the
  specification give \<open>[B, A, C, D]\<close>, \<open>[D, A, B, C]\<close> and \<open>[A, B, C, D]\<close>.
\<close>

theorem moveStep_semantics:
  assumes "0 \<le> from" "from < int (length steps)" "0 \<le> to" "to < int (length steps)"
  shows "moveStep from to steps = moveStep_spec (nat from) (nat to) steps
       \<and> moveStep_spec (nat from) (nat to) steps =
           insert_at (nat (if to > from then to - 1 else to)) (steps ! nat from)
             (remove_at (nat from) steps)
       \<and> moveStep from from steps = steps
       \<and> moveStep 0 2 [A, B, C, D] = [B, A, C, D]
       \<and> moveStep 3 0 [A, B, C, D] = [D, A, B, C]
       \<and> moveStep 1 1 [A, B, C, D] = [A, B, C, D]"
proof -
  have r: "nat from < length steps" "nat to < length steps"
    using assms by linarith+
  have "moveStep from to steps = moveStep_spec (nat from) (nat to) steps"
    using assms(1,3) r by (simp add: moveStep_refines)
  moreover have "moveStep_spec (nat from) (nat to) steps =
      insert_at (nat (if to > from then to - 1 else to)) (steps ! nat from)
        (remove_at (nat from) steps)"
    using assms by (auto simp: moveStep_spec_def nat_diff_distrib)
  moreover have "moveStep from from steps = steps"
    using assms(1) r(1) by (simp add: moveStep_same)
  ultimately show ?thesis
    by (simp add: moveStep_examples)
qed

theorem moveStep_semantics_witness:
  "moveStep 1 3 [JNum 10, JNum 20, JNum 30, JNum 40]
     = moveStep_spec 1 3 [JNum 10, JNum 20, JNum 30, JNum 40]
   \<and> moveStep_spec 1 3 [JNum 10, JNum 20, JNum 30, JNum 40]
     = [JNum 10, JNum 30, JNum 20, JNum 40]
   \<and> moveStep 1 1 [JNum 10, JNum 20, JNum 30, JNum 40]
     = [JNum 10, JNum 20, JNum 30, JNum 40]"
  using moveStep_semantics [of 1 "[JNum 10, JNum 20, JNum 30, JNum 40]" 3]
  by (simp add: insert_at_def remove_at_def)

text \<open>
  Claim C10. When \<open>from\<close> is at or beyond the length \<open>n\<close> of the list, \<open>moveStep\<close> is not
  a no-op: the removal filter removes nothing, the read \<open>oldFileContents[from]\<close> is
  \<open>undefined\<close>, and the result is the old list with \<open>undefined\<close> inserted: it has
  \<open>n + 1\<close> elements, one of which is not an object.
\<close>

theorem moveStep_out_of_range:
  assumes "int (length steps) \<le> from"
  shows "length (moveStep from to steps) = length steps + 1
       \<and> moveStep from to steps \<noteq> steps
       \<and> moveStep from to steps =
           take (nat (if to > from then to - 1 else to)) steps
             @ JUndefined # drop (nat (if to > from then to - 1 else to)) steps
       \<and> (\<exists>v \<in> set (moveStep from to steps). \<not> is_object v)"
proof -
  have c: "moveStep from to steps =
      take (nat (if to > from then to - 1 else to)) steps
        @ JUndefined # drop (nat (if to > from then to - 1 else to)) steps"
    using assms by (auto simp add: moveStep_closed js_index_def Let_def)
  have l: "length (moveStep from to steps) = length steps + 1"
    by (subst c) auto
  have "moveStep from to steps \<noteq> steps"
    using l by auto
  moreover have "\<exists>v \<in> set (moveStep from to steps). \<not> is_object v"
    by (subst c) (auto intro: bexI [of _ JUndefined])
  ultimately show ?thesis
    using c l by blast
qed

theorem moveStep_out_of_range_witness:
  "int (length [JObj [], JObj []]) \<le> 2
   \<and> moveStep 2 0 [JObj [], JObj []] = [JUndefined, JObj [], JObj []]
   \<and> length (moveStep 2 0 [JObj [], JObj []]) = 3"
  using moveStep_out_of_range [of "[JObj [], JObj []]" 2 0]
  by simp

section \<open>Properties of onFileUpdate\<close>

lemma trim_empty_iff: "length (trim s) = 0 \<longleftrightarrow> list_all is_space s"
proof
  assume "length (trim s) = 0"
  then have d: "\<forall>x \<in> set (dropWhile is_space s). is_space x"
    by (simp add: trim_def dropWhile_eq_Nil_conv)
  have "set s = set (takeWhile is_space s) \<union> set (dropWhile is_space s)"
    by (metis set_append takeWhile_dropWhile_id)
  with d show "list_all is_space s"
    by (auto simp: list_all_iff dest: set_takeWhileD)
next
  assume "list_all is_space s"
  then have "\<forall>x \<in> set s. is_space x"
    by (simp add: list_all_iff)
  then have "dropWhile is_space s = []"
    by (rule dropWhile_eq_Nil_conv [THEN iffD2])
  then show "length (trim s) = 0"
    by (simp add: trim_def del: dropWhile_eq_Nil_conv)
qed

lemma parse_file_cases:
  "parse_file D fileText =
     (case JSONC_parse D (if list_all is_space fileText then str ''[]'' else fileText) of
        Inl e \<Rightarrow> Inl e
      | Inr v \<Rightarrow> Inr (if truthy v then (case v of JArr steps \<Rightarrow> steps | _ \<Rightarrow> [v]) else []))"
  unfolding parse_file_def trim_empty_iff Let_def
  by (auto split: sum.splits jsval.splits)

text \<open>
  Claim C4, as the code has it. Provided \<open>JSONC.parse\<close> reads the text \<open>[]\<close> as the
  empty array: empty or blank text gives the empty sequence of steps; text whose value is
  an array gives that array; text whose value is not an array gives the one-element
  sequence holding the value when the value is truthy, and the empty sequence when it is
  falsy (\<open>null\<close>, \<open>false\<close>, \<open>0\<close>, the empty string); the parse fails exactly when the text
  is not blank and \<open>JSONC.parse\<close> throws on it; and \<open>onFileUpdate\<close> on an open panel
  stores the parsed steps and clears \<open>errorText\<close>, or takes the error branch.
\<close>

theorem parse_lenient:
  assumes "JSONC_parse D (str ''[]'') = Inr (JArr [])"
  shows "(list_all is_space fileText \<longrightarrow> parse_file D fileText = Inr [])
       \<and> (\<not> list_all is_space fileText \<and> JSONC_parse D fileText = Inr (JArr steps)
            \<longrightarrow> parse_file D fileText = Inr steps)
       \<and> (\<not> list_all is_space fileText \<and> JSONC_parse D fileText = Inr v \<and> \<not> is_array v
            \<longrightarrow> parse_file D fileText = Inr (if truthy v then [v] else []))
       \<and> ((\<exists>e. parse_file D fileText = Inl e)
            \<longleftrightarrow> \<not> list_all is_space fileText \<and> (\<exists>e. JSONC_parse D fileText = Inl e))
       \<and> (\<not> isClosed c \<and> getText (document c) = Inr fileText \<longrightarrow>
            onFileUpdate D c =
              (case parse_file D fileText of
                 Inl e \<Rightarrow> c\<lparr>viewState := (viewState c)
                            \<lparr>errorText := parse_problem_text (path_basename D (fsPath (document c)))\<rparr>\<rparr>
               | Inr steps \<Rightarrow> c\<lparr>viewState := (viewState c)
                            \<lparr>fileContents := steps, errorText := []\<rparr>\<rparr>))"
  using assms
  by (cases v) (auto simp: parse_file_cases onFileUpdate_def updateViewState_def split: sum.splits)

theorem parse_lenient_witness:
  "JSONC_parse sample_deps (str ''[]'') = Inr (JArr [])
   \<and> parse_file sample_deps (str '' '') = Inr []
   \<and> list_all is_space [0xA0, 0x2028, 0xFEFF]
   \<and> parse_file sample_deps [0xA0, 0x2028, 0xFEFF] = Inr []
   \<and> parse_file sample_deps (str ''7'') = Inr [JNum 7]
   \<and> parse_file sample_deps (str ''0'') = Inr []
   \<and> parse_file sample_deps (str ''{'') = Inl SyntaxError"
proof -
  have p: "JSONC_parse sample_deps (str ''[]'') = Inr (JArr [])"
    by (simp add: sample_deps_def sample_parse_def)
  have b: "list_all is_space (str '' '')" "list_all is_space [0xA0, 0x2028, 0xFEFF]"
    by (simp_all add: is_space_def str_def)
  have n: "\<not> list_all is_space (str ''7'')" "\<not> list_all is_space (str ''0'')"
    "\<not> list_all is_space (str ''{'')"
    by (simp_all add: is_space_def str_def)
  have j: "JSONC_parse sample_deps (str ''7'') = Inr (JNum 7)"
    "JSONC_parse sample_deps (str ''0'') = Inr (JNum 0)"
    "JSONC_parse sample_deps (str ''{'') = Inl SyntaxError"
    by (simp_all add: sample_deps_def sample_parse_def)
  have "parse_file sample_deps (str '' '') = Inr []"
    using parse_lenient [OF p, of "str '' ''"] b by simp
  moreover have "parse_file sample_deps [0xA0, 0x2028, 0xFEFF] = Inr []"
    using parse_lenient [OF p, of "[0xA0, 0x2028, 0xFEFF]"] b by simp
  moreover have "parse_file sample_deps (str ''7'') = Inr [JNum 7]"
    using parse_lenient [OF p, of "str ''7''" _ "JNum 7"] n j by simp
  moreover have "parse_file sample_deps (str ''0'') = Inr []"
    using parse_lenient [OF p, of "str ''0''" _ "JNum 0"] n j by simp
  moreover have "parse_file sample_deps (str ''{'') = Inl SyntaxError"
    using n j by (simp add: parse_file_cases)
  ultimately show ?thesis
    using p b by simp
qed

text \<open>
  The claim as written fails on a falsy value: the text \<open>null\<close> is well formed and its
  value is not a sequence, yet the steps are the empty sequence, not \<open>[null]\<close>.
\<close>

theorem parse_wraps_falsy_counterexample:
  "JSONC_parse sample_deps (str ''null'') = Inr JNull
   \<and> \<not> is_array JNull
   \<and> parse_file sample_deps (str ''null'') = Inr []
   \<and> parse_file sample_deps (str ''null'') \<noteq> Inr [JNull]
   \<and> fileContents (viewState (onFileUpdate sample_deps
        (sample_controller\<lparr>document := sample_doc (str ''null'')\<rparr>))) = []"
  by code_simp

text \<open>
  Claim C5. On an open panel, when the text of the document does not parse,
  \<open>onFileUpdate\<close> sets \<open>errorText\<close> to the parse message, which is not empty and contains
  the base name of the document's path, and changes nothing else: \<open>fileContents\<close> is what
  it was.
\<close>

theorem parse_failure_non_destructive:
  assumes "\<not> isClosed c" "getText (document c) = Inr fileText" "parse_file D fileText = Inl e"
  shows "errorText (viewState (onFileUpdate D c)) =
           parse_problem_text (path_basename D (fsPath (document c)))
       \<and> errorText (viewState (onFileUpdate D c)) \<noteq> []
       \<and> (\<exists>pre post. errorText (viewState (onFileUpdate D c)) =
             pre @ path_basename D (fsPath (document c)) @ post)
       \<and> fileContents (viewState (onFileUpdate D c)) = fileContents (viewState c)
       \<and> onFileUpdate D c = c\<lparr>viewState := (viewState c)
             \<lparr>errorText := parse_problem_text (path_basename D (fsPath (document c)))\<rparr>\<rparr>"
proof -
  have u: "onFileUpdate D c = c\<lparr>viewState := (viewState c)
             \<lparr>errorText := parse_problem_text (path_basename D (fsPath (document c)))\<rparr>\<rparr>"
    using assms by (simp add: onFileUpdate_def updateViewState_def)
  have "\<exists>pre post. parse_problem_text n = pre @ n @ post" for n
    unfolding parse_problem_text_def by blast
  moreover have "parse_problem_text n \<noteq> []" for n
    by (simp add: parse_problem_text_def)
  ultimately show ?thesis
    by (simp add: u)
qed

theorem parse_failure_non_destructive_witness:
  "\<not> isClosed loaded_controller
   \<and> getText (document loaded_controller) = Inr (str ''[{'')
   \<and> parse_file sample_deps (str ''[{'') = Inl SyntaxError
   \<and> fileContents (viewState loaded_controller) = [contract_step (str ''0xc0de'')]
   \<and> errorText (viewState loaded_controller) = []
   \<and> errorText (viewState (onFileUpdate sample_deps loaded_controller))
       = parse_problem_text (str ''a.neo-invoke.json'')
   \<and> fileContents (viewState (onFileUpdate sample_deps loaded_controller))
       = [contract_step (str ''0xc0de'')]"
proof -
  have o: "\<not> isClosed loaded_controller"
    and t: "getText (document loaded_controller) = Inr (str ''[{'')"
    and f: "fileContents (viewState loaded_controller) = [contract_step (str ''0xc0de'')]"
    and e: "errorText (viewState loaded_controller) = []"
    by (simp_all add: loaded_controller_def sample_controller_def sample_doc_def
        initial_viewState_def)
  have p: "parse_file sample_deps (str ''[{'') = Inl SyntaxError"
    by code_simp
  have b: "path_basename sample_deps (fsPath (document loaded_controller))
      = str ''a.neo-invoke.json''"
    by code_simp
  note r = parse_failure_non_destructive [OF o t p]
  show ?thesis
    using r o t p f e by (simp add: b)
qed

section \<open>Properties of the poll cycle\<close>

lemma poll_entry_confirmed: "has_confirmations t \<Longrightarrow> poll_entry k t = ([], t)"
  by (simp add: poll_entry_def)

lemma poll_entry_txid: "txid (snd (poll_entry k t)) = txid t"
  by (auto simp: poll_entry_def Let_def split: prod.splits sum.splits)

lemma poll_entry_queries:
  "fst (poll_entry k t) =
     (if has_confirmations t then []
      else case k of None \<Rightarrow> []
           | Some conn \<Rightarrow> (case rpcClient conn of None \<Rightarrow> [] | Some rpc \<Rightarrow> [txid t]))"
  by (auto simp: poll_entry_def query_transaction_def Let_def split: prod.splits option.splits)

lemma poll_entry_failure:
  assumes "k = Some conn" "rpcClient conn = Some rpc" "getRawTransaction rpc (txid t) = Inl e"
  shows "snd (poll_entry k t) = t"
  using assms by (auto simp: poll_entry_def query_transaction_def Let_def)

lemma vmstate_status_Pending: "vmstate_status v = Pending \<longleftrightarrow> \<not> truthy v"
  by (auto simp: vmstate_status_def)

lemma poll_entry_cases:
  assumes "\<not> has_confirmations t"
  obtains (kept) "snd (poll_entry k t) = t"
  | (updated) conn rpc v vmstate where "k = Some conn" "rpcClient conn = Some rpc"
      "getRawTransaction rpc (txid t) = Inr v" "get_prop v (str ''vmstate'') = Inr vmstate"
      "snd (poll_entry k t) =
         \<lparr>txid = txid t, blockchain = blockchain t, tx = v, state = vmstate_status vmstate\<rparr>"
proof (cases k)
  case None
  then have "snd (poll_entry k t) = t"
    using assms by (simp add: poll_entry_def query_transaction_def)
  then show ?thesis by (rule kept)
next
  case (Some conn)
  show ?thesis
  proof (cases "rpcClient conn")
    case None
    then have "snd (poll_entry k t) = t"
      using assms Some by (simp add: poll_entry_def query_transaction_def)
    then show ?thesis by (rule kept)
  next
    case rpc: (Some rpc)
    show ?thesis
    proof (cases "getRawTransaction rpc (txid t)")
      case (Inl e)
      then have "snd (poll_entry k t) = t"
        using assms Some rpc by (simp add: poll_entry_def query_transaction_def)
      then show ?thesis by (rule kept)
    next
      case v: (Inr v)
      show ?thesis
      proof (cases "get_prop v (str ''vmstate'')")
        case (Inl e)
        then have "snd (poll_entry k t) = t"
          using assms Some rpc v by (simp add: poll_entry_def query_transaction_def)
        then show ?thesis by (rule kept)
      next
        case (Inr vmstate)
        then have "snd (poll_entry k t) =
            \<lparr>txid = txid t, blockchain = blockchain t, tx = v, state = vmstate_status vmstate\<rparr>"
          using assms Some rpc v by (simp add: poll_entry_def query_transaction_def)
        with Some rpc v Inr show ?thesis by (rule updated)
      qed
    qed
  qed
qed

lemma poll_entry_settled:
  assumes "reports_confirmations k" "settled_is_confirmed t"
  shows "settled_is_confirmed (snd (poll_entry k t))"
proof (cases "has_confirmations t")
  case True
  then show ?thesis using assms(2) by (simp add: poll_entry_confirmed)
next
  case False
  then show ?thesis
  proof (cases rule: poll_entry_cases [where k = k])
    case kept
    then show ?thesis using assms(2) by simp
  next
    case (updated conn rpc v vmstate)
    show ?thesis
    proof (cases "truthy vmstate")
      case True
      with assms(1) updated(1-4)
      have "truthy v \<and> (\<exists>n. get_prop v (str ''confirmations'') = Inr n \<and> truthy n)"
        unfolding reports_confirmations_def by blast
      then show ?thesis
        by (auto simp: updated(5) settled_is_confirmed_def has_confirmations_def)
    next
      case False
      then show ?thesis
        by (simp add: updated(5) settled_is_confirmed_def vmstate_status_Pending)
    qed
  qed
qed

lemma poll_entry_settled_kept:
  assumes "settled_is_confirmed t" "state t \<noteq> Pending"
  shows "poll_entry k t = ([], t)"
  using assms by (auto simp: settled_is_confirmed_def poll_entry_confirmed)

lemma periodic_result:
  assumes "periodicViewStateUpdate D c = Some (err, queries, c')"
  shows "queries = concat (map (\<lambda>t. fst (poll_entry (activeConnection c) t))
                      (recentTransactions (viewState c)))"
    and "err = None \<Longrightarrow> recentTransactions (viewState c') =
            map (\<lambda>t. snd (poll_entry (activeConnection c) t)) (recentTransactions (viewState c))"
    and "err \<noteq> None \<Longrightarrow> viewState c' = viewState c"
    and "activeConnection c' = activeConnection c"
  using assms
  by (auto simp: periodicViewStateUpdate_def Let_def comp_def split: option.splits sum.splits prod.splits)

text \<open>
  Claim C1, as the code has it. The guard of a poll cycle is the \<open>confirmations\<close> field
  of the stored \<open>tx\<close>, not the state of the entry. In every poll cycle the list keeps its
  length; an entry whose \<open>tx\<close> carries truthy confirmations is not asked of the node and
  stays as it is; with a client connected, the ids asked are exactly those of the other
  entries, in order, and each of these entries becomes what \<open>poll_entry\<close> makes of the
  answer. If moreover the node reports a \<open>vmstate\<close> only together with confirmations and
  every entry that is not \<open>Pending\<close> carries its confirmations, then this still holds
  after the cycle, and no entry with state \<open>Ok\<close> or \<open>Error\<close> is asked of the node or
  changed.
\<close>

theorem poll_skips_confirmed:
  assumes "periodicViewStateUpdate D c = Some (err, queries, c')"
  shows "length (recentTransactions (viewState c')) = length (recentTransactions (viewState c))
       \<and> (\<forall>i < length (recentTransactions (viewState c)).
             has_confirmations (recentTransactions (viewState c) ! i) \<longrightarrow>
               recentTransactions (viewState c') ! i = recentTransactions (viewState c) ! i
               \<and> fst (poll_entry (activeConnection c) (recentTransactions (viewState c) ! i)) = [])
       \<and> queries = concat (map (\<lambda>t. fst (poll_entry (activeConnection c) t))
                      (recentTransactions (viewState c)))
       \<and> (\<forall>conn rpc. activeConnection c = Some conn \<and> rpcClient conn = Some rpc \<longrightarrow>
             queries = map txid (filter (\<lambda>t. \<not> has_confirmations t)
                         (recentTransactions (viewState c))))
       \<and> (err = None \<longrightarrow>
             recentTransactions (viewState c') =
               map (\<lambda>t. snd (poll_entry (activeConnection c) t)) (recentTransactions (viewState c)))
       \<and> (reports_confirmations (activeConnection c)
            \<and> list_all settled_is_confirmed (recentTransactions (viewState c)) \<longrightarrow>
             list_all settled_is_confirmed (recentTransactions (viewState c'))
             \<and> (\<forall>i < length (recentTransactions (viewState c)).
                   state (recentTransactions (viewState c) ! i) \<noteq> Pending \<longrightarrow>
                     recentTransactions (viewState c') ! i = recentTransactions (viewState c) ! i
                     \<and> fst (poll_entry (activeConnection c)
                              (recentTransactions (viewState c) ! i)) = []))"
proof -
  let ?k = "activeConnection c"
  let ?rts = "recentTransactions (viewState c)"
  let ?rts' = "recentTransactions (viewState c')"
  note r = periodic_result [OF assms]
  have q: "queries = concat (map (\<lambda>t. fst (poll_entry ?k t)) ?rts)"
    by (rule r(1))
  have kept: "?rts' ! i = ?rts ! i \<and> fst (poll_entry ?k (?rts ! i)) = []"
    if "i < length ?rts" "poll_entry ?k (?rts ! i) = ([], ?rts ! i)" for i
  proof (cases err)
    case None
    then show ?thesis using r(2) that by simp
  next
    case (Some e)
    then show ?thesis using r(3) that by simp
  qed
  have len: "length ?rts' = length ?rts"
  proof (cases err)
    case None
    then show ?thesis using r(2) by simp
  next
    case (Some e)
    then show ?thesis using r(3) by simp
  qed
  have conf: "\<forall>i < length ?rts. has_confirmations (?rts ! i) \<longrightarrow>
      ?rts' ! i = ?rts ! i \<and> fst (poll_entry ?k (?rts ! i)) = []"
    using kept by (simp add: poll_entry_confirmed)
  have asked: "queries = map txid (filter (\<lambda>t. \<not> has_confirmations t) ?rts)"
    if "?k = Some conn" "rpcClient conn = Some rpc" for conn rpc
  proof -
    have "concat (map (\<lambda>t. fst (poll_entry ?k t)) xs) =
        map txid (filter (\<lambda>t. \<not> has_confirmations t) xs)" for xs
      by (induction xs) (simp_all add: poll_entry_queries that)
    then show ?thesis by (simp add: q)
  qed
  have honest: "list_all settled_is_confirmed ?rts' \<and>
      (\<forall>i < length ?rts. state (?rts ! i) \<noteq> Pending \<longrightarrow>
         ?rts' ! i = ?rts ! i \<and> fst (poll_entry ?k (?rts ! i)) = [])"
    if h: "reports_confirmations ?k" and s: "list_all settled_is_confirmed ?rts"
  proof
    show "list_all settled_is_confirmed ?rts'"
    proof (cases err)
      case None
      then show ?thesis
        using r(2) s by (auto simp: list_all_iff intro: poll_entry_settled [OF h])
    next
      case (Some e)
      then show ?thesis using r(3) s by simp
    qed
    show "\<forall>i < length ?rts. state (?rts ! i) \<noteq> Pending \<longrightarrow>
        ?rts' ! i = ?rts ! i \<and> fst (poll_entry ?k (?rts ! i)) = []"
    proof (intro allI impI)
      fix i assume i: "i < length ?rts" and p: "state (?rts ! i) \<noteq> Pending"
      have "settled_is_confirmed (?rts ! i)"
        using s i by (simp add: list_all_length)
      then have "poll_entry ?k (?rts ! i) = ([], ?rts ! i)"
        using p by (rule poll_entry_settled_kept)
      with i show "?rts' ! i = ?rts ! i \<and> fst (poll_entry ?k (?rts ! i)) = []"
        by (rule kept)
    qed
  qed
  show ?thesis
    using len conf q asked r(2) honest by blast
qed

theorem poll_skips_confirmed_witness:
  "(case periodicViewStateUpdate sample_deps (connected_controller two_entries) of
      None \<Rightarrow> False
    | Some (err, queries, c') \<Rightarrow>
        err = None \<and> queries = [str ''0x1'']
        \<and> map state (recentTransactions (viewState c')) = [Ok, Ok]
        \<and> recentTransactions (viewState c') ! 0 = two_entries ! 0)
   \<and> has_confirmations (two_entries ! 0)
   \<and> reports_confirmations (Some sample_connection)
   \<and> list_all settled_is_confirmed two_entries"
proof -
  have e: "case periodicViewStateUpdate sample_deps (connected_controller two_entries) of
      None \<Rightarrow> False
    | Some (err, queries, c') \<Rightarrow>
        err = None \<and> queries = [str ''0x1'']
        \<and> map state (recentTransactions (viewState c')) = [Ok, Ok]"
    by code_simp
  then obtain queries c' where
    p: "periodicViewStateUpdate sample_deps (connected_controller two_entries)
          = Some (None, queries, c')"
    and o: "queries = [str ''0x1'']" "map state (recentTransactions (viewState c')) = [Ok, Ok]"
    by (auto split: option.splits)
  have h: "has_confirmations (two_entries ! 0)"
    by (simp add: two_entries_def has_confirmations_def confirmed_tx_def)
  have rts: "recentTransactions (viewState (connected_controller xs)) = xs" for xs
    by (simp add: connected_controller_def)
  have l: "0 < length (recentTransactions (viewState (connected_controller two_entries)))"
    by (simp add: rts two_entries_def)
  have h': "has_confirmations (recentTransactions (viewState (connected_controller two_entries)) ! 0)"
    using h by (simp add: rts)
  have "recentTransactions (viewState c') ! 0 = two_entries ! 0"
    using poll_skips_confirmed [OF p, THEN conjunct2, THEN conjunct1, rule_format, OF l h']
    by (simp add: rts)
  moreover have "reports_confirmations (Some sample_connection)"
    by (simp add: reports_confirmations_def sample_connection_def sample_rpc_def confirmed_tx_def)
  moreover have "list_all settled_is_confirmed two_entries"
    by (simp add: two_entries_def settled_is_confirmed_def has_confirmations_def
        confirmed_tx_def pending_transaction_def)
  ultimately show ?thesis
    using p o h by simp
qed

text \<open>
  The claim as written fails for an entry whose state is \<open>Ok\<close> but whose \<open>tx\<close> carries
  no confirmations. After a run that reports \<open>0xab\<close> and a poll cycle on a node that
  reports the transaction as executed, the entry is \<open>Ok\<close>; the next poll cycle asks the
  node for \<open>0xab\<close> again, and when the node then reports no \<open>vmstate\<close> the entry is
  overwritten and \<open>Pending\<close> again.
\<close>

theorem settled_entry_requeried_counterexample:
  "observe (run_events sample_deps
      [ConnectionChanged (Some halted_connection), RunAll (sample_env run_ok), Refresh]
      sample_controller)
     = Some ([str ''0xab''], [(str ''0xab'', Ok)])
   \<and> observe (run_events sample_deps
      [ConnectionChanged (Some halted_connection), RunAll (sample_env run_ok), Refresh, Refresh]
      sample_controller)
     = Some ([str ''0xab'', str ''0xab''], [(str ''0xab'', Ok)])
   \<and> observe (run_events sample_deps
      [ConnectionChanged (Some halted_connection), RunAll (sample_env run_ok), Refresh,
       ConnectionChanged (Some plain_connection), Refresh]
      sample_controller)
     = Some ([str ''0xab'', str ''0xab''], [(str ''0xab'', Pending)])"
  by code_simp

section \<open>Properties of runFile\<close>

lemma unshift_all_eq:
  "unshift_all name ids rts = rev (map (pending_transaction name) ids) @ rts"
  by (induction ids arbitrary: rts) auto

lemma truncate_recent_eq: "truncate_recent rts = take MAX_RECENT_TXS rts"
  by (simp add: truncate_recent_def)

lemma run_connected_success:
  assumes "activeConnection c = Some conn" "blockchainType conn = str ''express''"
    and "multipleChoice env (str ''genesis'' # walletNames conn) = Some account" "account \<noteq> []"
    and "\<not> isError (runSync env [str ''contract'', str ''invoke'', str ''-i'', configPath conn, path, account])"
  shows "recentTransactions (viewState (run_connected env path c)) =
           take MAX_RECENT_TXS
             (rev (map (pending_transaction (blockchainName conn))
                (extract_txids (message (runSync env
                   [str ''contract'', str ''invoke'', str ''-i'', configPath conn, path, account]))))
              @ recentTransactions (viewState c))"
  using assms
  by (simp add: run_connected_def Let_def unshift_all_eq truncate_recent_eq)


lemma runFile_phases:
  assumes "(activeConnection c \<noteq> None \<and> queries = [] \<and> c1 = c)
         \<or> (activeConnection c = None
            \<and> periodicViewStateUpdate D (c\<lparr>activeConnection := connect env\<rparr>)
                = Some (None, queries, c1))"
  shows "runFile D env path c = Some (None, queries, run_connected env path c1)"
  using assms by (auto simp: runFile_def)

text \<open>
  Claim C6. In a run of \<open>runFile\<close> that reaches the runner and whose runner succeeds
  (\<open>c1\<close> is the controller when the connection is tested: \<open>c\<close> itself, or \<open>c\<close> after
  connecting and one poll cycle), the new list of recent transactions is the old one
  with one \<open>Pending\<close> entry per extracted id put in front, the id extracted last first,
  cut to its first ten entries. So it has at most ten entries, the entries dropped are
  the last ones, and one new id on a list of ten gives the new entry followed by the
  first nine old ones.
\<close>

theorem runFile_success_prepends:
  assumes "(activeConnection c \<noteq> None \<and> queries = [] \<and> c1 = c)
         \<or> (activeConnection c = None
            \<and> periodicViewStateUpdate D (c\<lparr>activeConnection := connect env\<rparr>)
                = Some (None, queries, c1))"
    and "activeConnection c1 = Some conn" "blockchainType conn = str ''express''"
    and "multipleChoice env (str ''genesis'' # walletNames conn) = Some account" "account \<noteq> []"
    and "\<not> isError (runSync env [str ''contract'', str ''invoke'', str ''-i'', configPath conn, path, account])"
    and "ids = extract_txids (message (runSync env
                [str ''contract'', str ''invoke'', str ''-i'', configPath conn, path, account]))"
  shows "\<exists>c'. runFile D env path c = Some (None, queries, c')
       \<and> recentTransactions (viewState c') =
           take MAX_RECENT_TXS
             (rev (map (pending_transaction (blockchainName conn)) ids)
              @ recentTransactions (viewState c1))
       \<and> (\<forall>i. txid (pending_transaction (blockchainName conn) i) = i
              \<and> state (pending_transaction (blockchainName conn) i) = Pending)
       \<and> length (recentTransactions (viewState c')) \<le> 10
       \<and> (length ids \<le> 10 \<longrightarrow>
            take (length ids) (recentTransactions (viewState c')) =
              rev (map (pending_transaction (blockchainName conn)) ids))
       \<and> (\<forall>i. ids = [i] \<and> length (recentTransactions (viewState c1)) = 10 \<longrightarrow>
            recentTransactions (viewState c') =
              pending_transaction (blockchainName conn) i
                # take 9 (recentTransactions (viewState c1)))"
proof -
  let ?new = "rev (map (pending_transaction (blockchainName conn)) ids)"
  let ?old = "recentTransactions (viewState c1)"
  have run: "runFile D env path c = Some (None, queries, run_connected env path c1)"
    using assms(1) by (rule runFile_phases)
  have rts: "recentTransactions (viewState (run_connected env path c1)) =
      take MAX_RECENT_TXS (?new @ ?old)"
    using assms(2-6) by (simp add: run_connected_success assms(7))
  have "length (take MAX_RECENT_TXS (?new @ ?old)) \<le> 10"
    by (simp add: MAX_RECENT_TXS_def)
  moreover have "take (length ids) (take MAX_RECENT_TXS (?new @ ?old)) = ?new"
    if "length ids \<le> 10"
    using that by (simp add: MAX_RECENT_TXS_def min_absorb2)
  moreover have "take MAX_RECENT_TXS (?new @ ?old) =
      pending_transaction (blockchainName conn) i # take 9 ?old"
    if "ids = [i]" "length ?old = 10" for i
    using that by (simp add: MAX_RECENT_TXS_def)
  ultimately show ?thesis
    unfolding run rts [symmetric]
    by (intro exI [of _ "run_connected env path c1"]) (simp add: pending_transaction_def)
qed

lemma extract_run_ok: "extract_txids (message run_ok) = [str ''0xab'']"
  by code_simp

lemma extract_run_two: "extract_txids (message run_two) = [str ''0xcd'', str ''0xef'']"
  by code_simp

text \<open>
  The scan on some messages: an id in upper case; an id delimited by U+00A0 and by the
  padding; two ids that share their delimiter, of which the second is not found; text
  that does not match.
\<close>

lemma extract_txids_examples:
  "extract_txids (str ''0XAB'') = [str ''0XAB'']"
  "extract_txids (str ''tx'' @ [0xA0] @ str ''0xab'') = [str ''0xab'']"
  "extract_txids (str ''0xab'' @ [0x2028] @ [0x3000] @ str ''0xcd'') = [str ''0xab'', str ''0xcd'']"
  "extract_txids (str ''0xab 0xcd'') = [str ''0xab'']"
  "extract_txids (str ''0x 0xg1 x0x12 0x12,'') = []"
  by code_simp+

theorem runFile_success_prepends_witness:
  "(case runFile sample_deps (sample_env run_ok) (str ''/w/a.neo-invoke.json'')
          (connected_controller ten_pending) of
      None \<Rightarrow> False
    | Some (err, queries, c') \<Rightarrow>
        recentTransactions (viewState c') =
          pending_transaction (str ''net'') (str ''0xab'') # take 9 ten_pending
        \<and> length (recentTransactions (viewState c')) = 10)
   \<and> length ten_pending = 10
   \<and> \<not> isError (runSync (sample_env run_ok) [])"
proof -
  let ?c = "connected_controller ten_pending"
  let ?args = "[str ''contract'', str ''invoke'', str ''-i'', configPath sample_connection,
      str ''/w/a.neo-invoke.json'', str ''genesis'']"
  have len: "length ten_pending = 10"
    by (simp add: ten_pending_def)
  have ids: "[str ''0xab''] = extract_txids (message (runSync (sample_env run_ok) ?args))"
    using extract_run_ok by (simp add: sample_env_def)
  have "\<exists>c'. runFile sample_deps (sample_env run_ok) (str ''/w/a.neo-invoke.json'') ?c
          = Some (None, [], c')
      \<and> recentTransactions (viewState c') =
          take MAX_RECENT_TXS
            (rev (map (pending_transaction (blockchainName sample_connection)) [str ''0xab''])
             @ recentTransactions (viewState ?c))
      \<and> (\<forall>i. txid (pending_transaction (blockchainName sample_connection) i) = i
             \<and> state (pending_transaction (blockchainName sample_connection) i) = Pending)
      \<and> length (recentTransactions (viewState c')) \<le> 10
      \<and> (length [str ''0xab''] \<le> 10 \<longrightarrow>
            take (length [str ''0xab'']) (recentTransactions (viewState c')) =
              rev (map (pending_transaction (blockchainName sample_connection)) [str ''0xab'']))
      \<and> (\<forall>i. [str ''0xab''] = [i] \<and> length (recentTransactions (viewState ?c)) = 10 \<longrightarrow>
            recentTransactions (viewState c') =
              pending_transaction (blockchainName sample_connection) i
                # take 9 (recentTransactions (viewState ?c)))"
  proof (rule runFile_success_prepends [where account = "str ''genesis''"])
    show "(activeConnection ?c \<noteq> None \<and> [] = [] \<and> ?c = ?c)
        \<or> (activeConnection ?c = None
           \<and> periodicViewStateUpdate sample_deps (?c\<lparr>activeConnection := connect (sample_env run_ok)\<rparr>)
               = Some (None, [], ?c))"
      by (simp add: connected_controller_def)
    show "activeConnection ?c = Some sample_connection"
      by (simp add: connected_controller_def)
    show "blockchainType sample_connection = str ''express''"
      by (simp add: sample_connection_def)
    show "multipleChoice (sample_env run_ok) (str ''genesis'' # walletNames sample_connection)
        = Some (str ''genesis'')"
      by (simp add: sample_env_def)
    show "str ''genesis'' \<noteq> []"
      by simp
    show "\<not> isError (runSync (sample_env run_ok) ?args)"
      by (simp add: sample_env_def run_ok_def)
    show "[str ''0xab''] = extract_txids (message (runSync (sample_env run_ok) ?args))"
      by (rule ids)
  qed
  then obtain c' where
    "runFile sample_deps (sample_env run_ok) (str ''/w/a.neo-invoke.json'') ?c = Some (None, [], c')"
    "recentTransactions (viewState c') =
       pending_transaction (blockchainName sample_connection) (str ''0xab'')
         # take 9 (recentTransactions (viewState ?c))"
    using len by (auto simp: connected_controller_def)
  then show ?thesis
    by (simp add: len connected_controller_def sample_connection_def sample_env_def run_ok_def)
qed




section \<open>Properties of runs of events\<close>

lemma onFileUpdate_recent:
  "recentTransactions (viewState (onFileUpdate D c)) = recentTransactions (viewState c)"
  by (simp add: onFileUpdate_def split: sum.splits)

lemma periodic_txids:
  assumes "periodicViewStateUpdate D c = Some (err, queries, c')"
  shows "map txid (recentTransactions (viewState c')) = map txid (recentTransactions (viewState c))"
proof (cases err)
  case None
  then show ?thesis
    using periodic_result(2) [OF assms] by (simp add: comp_def poll_entry_txid)
next
  case (Some e)
  then show ?thesis
    using periodic_result(3) [OF assms] by simp
qed

lemma txid_pending: "txid (pending_transaction name i) = i"
  by (simp add: pending_transaction_def)

lemma run_connected_distinct:
  assumes "distinct (map txid (recentTransactions (viewState c)))"
    and "runner_ids_fresh env (recentTransactions (viewState c))"
  shows "distinct (map txid (recentTransactions (viewState (run_connected env path c))))"
proof -
  have new: "distinct (map txid (truncate_recent (unshift_all name
      (extract_txids (message (runSync env args))) (recentTransactions (viewState c)))))"
    for name args
  proof -
    let ?ids = "extract_txids (message (runSync env args))"
    have d: "distinct ?ids"
      and i: "set ?ids \<inter> set (map txid (recentTransactions (viewState c))) = {}"
      using assms(2) by (simp_all add: runner_ids_fresh_def)
    have "map txid (unshift_all name ?ids (recentTransactions (viewState c))) =
        rev ?ids @ map txid (recentTransactions (viewState c))"
      by (simp add: unshift_all_eq rev_map comp_def txid_pending)
    moreover have "distinct (rev ?ids @ map txid (recentTransactions (viewState c)))"
      using d i assms(1) by auto
    ultimately have "distinct (take MAX_RECENT_TXS
        (map txid (unshift_all name ?ids (recentTransactions (viewState c)))))"
      by (simp only: distinct_take)
    then show ?thesis
      by (simp only: truncate_recent_eq take_map)
  qed
  show ?thesis
    using assms(1) new
    by (simp add: run_connected_def Let_def split: option.splits)
qed

lemma runFile_distinct:
  assumes "runFile D env path c = Some (err, queries, c')"
    and "distinct (map txid (recentTransactions (viewState c)))"
    and "runner_ids_fresh env (recentTransactions (viewState c))"
  shows "distinct (map txid (recentTransactions (viewState c')))"
proof (cases "activeConnection c")
  case (Some conn)
  then have "c' = run_connected env path c"
    using assms(1) by (simp add: runFile_def)
  then show ?thesis
    using assms(2,3) by (simp add: run_connected_distinct)
next
  case None
  then obtain e1 c1 where
    p: "periodicViewStateUpdate D (c\<lparr>activeConnection := connect env\<rparr>) = Some (e1, queries, c1)"
    and c': "c' = c1 \<or> c' = run_connected env path c1"
    using assms(1) by (auto simp: runFile_def split: option.splits)
  have t: "map txid (recentTransactions (viewState c1)) =
      map txid (recentTransactions (viewState c))"
    using periodic_txids [OF p] by simp
  then have "distinct (map txid (recentTransactions (viewState c1)))"
    and "runner_ids_fresh env (recentTransactions (viewState c1))"
    using assms(2,3) by (simp_all add: runner_ids_fresh_def)
  then show ?thesis
    using c' by (auto simp: run_connected_distinct)
qed

lemma step_event_distinct:
  assumes "step_event D e c = Some (queries, c')"
    and "distinct (map txid (recentTransactions (viewState c)))"
    and "case e of RunAll env \<Rightarrow> runner_ids_fresh env (recentTransactions (viewState c))
                 | _ \<Rightarrow> True"
  shows "distinct (map txid (recentTransactions (viewState c')))"
proof (cases e)
  case (DocumentChanged t)
  then show ?thesis
    using assms(1,2) by (auto simp: onFileUpdate_recent)
next
  case Refresh
  then show ?thesis
    using assms(1,2) by (auto simp: periodic_txids split: if_splits option.splits)
next
  case (RunAll env)
  then show ?thesis
    using assms by (auto split: option.splits dest: runFile_distinct)
next
  case (ConnectionChanged k)
  then show ?thesis
    using assms(1,2) by auto
qed

text \<open>
  Claim C7, as the code has it. The controller never compares ids: the ids in the list
  are those the runners reported. Starting from a list without repeated ids, after any
  run of events in which every runner reports ids that are pairwise distinct and not yet
  in the list, no two entries of the list carry the same \<open>txid\<close>.
\<close>

theorem txids_distinct_when_runner_ids_fresh:
  assumes "distinct (map txid (recentTransactions (viewState c)))"
    and "fresh_runs D es c"
    and "run_events D es c = Some (queries, c')"
  shows "distinct (map txid (recentTransactions (viewState c')))"
  using assms
proof (induction es arbitrary: c queries)
  case Nil
  then show ?case by simp
next
  case (Cons e es)
  from Cons.prems(3) obtain q1 c1 q2 where
    s: "step_event D e c = Some (q1, c1)" and r: "run_events D es c1 = Some (q2, c')"
    by (auto split: option.splits)
  have f: "case e of RunAll env \<Rightarrow> runner_ids_fresh env (recentTransactions (viewState c))
                   | _ \<Rightarrow> True"
    and f': "fresh_runs D es c1"
    using Cons.prems(2) s by simp_all
  have "distinct (map txid (recentTransactions (viewState c1)))"
    using s Cons.prems(1) f by (rule step_event_distinct)
  then show ?case
    using f' r by (rule Cons.IH)
qed

lemma step_refresh_txids:
  assumes "step_event D Refresh c = Some (queries, c')"
  shows "map txid (recentTransactions (viewState c')) = map txid (recentTransactions (viewState c))"
  using assms by (auto simp: periodic_txids split: if_splits option.splits)

lemma fresh_runs_Cons:
  "fresh_runs D (e # es) c \<longleftrightarrow>
     (case e of RunAll env \<Rightarrow> runner_ids_fresh env (recentTransactions (viewState c))
              | _ \<Rightarrow> True)
     \<and> (\<forall>q c'. step_event D e c = Some (q, c') \<longrightarrow> fresh_runs D es c')"
  by (auto split: option.splits)

theorem txids_distinct_when_runner_ids_fresh_witness:
  "(case run_events sample_deps
          [RunAll (sample_env run_ok), Refresh, RunAll (sample_env run_two)]
          sample_controller of
      None \<Rightarrow> False
    | Some (queries, c') \<Rightarrow>
        distinct (map txid (recentTransactions (viewState c')))
        \<and> map txid (recentTransactions (viewState c')) = [str ''0xef'', str ''0xcd'', str ''0xab''])
   \<and> fresh_runs sample_deps
        [RunAll (sample_env run_ok), Refresh, RunAll (sample_env run_two)] sample_controller
   \<and> distinct (map txid (recentTransactions (viewState sample_controller)))"
proof -
  let ?es = "[RunAll (sample_env run_ok), Refresh, RunAll (sample_env run_two)]"
  have e: "case run_events sample_deps ?es sample_controller of
      None \<Rightarrow> False
    | Some (queries, c') \<Rightarrow>
        map txid (recentTransactions (viewState c')) = [str ''0xef'', str ''0xcd'', str ''0xab'']"
    by code_simp
  then obtain queries c' where
    r: "run_events sample_deps ?es sample_controller = Some (queries, c')"
    and t: "map txid (recentTransactions (viewState c')) = [str ''0xef'', str ''0xcd'', str ''0xab'']"
    by (auto split: option.splits)
  have d: "distinct (map txid (recentTransactions (viewState sample_controller)))"
    by (simp add: sample_controller_def initial_viewState_def)
  have f1: "runner_ids_fresh (sample_env run_ok)
      (recentTransactions (viewState sample_controller))"
    using extract_run_ok
    by (simp add: runner_ids_fresh_def sample_env_def sample_controller_def
        initial_viewState_def)
  have f2: "runner_ids_fresh (sample_env run_two) rts" if "map txid rts = [str ''0xab'']" for rts
    using extract_run_two that
    by (simp add: runner_ids_fresh_def sample_env_def)
  have f3: "fresh_runs sample_deps [Refresh, RunAll (sample_env run_two)] c1"
    if m: "map txid (recentTransactions (viewState c1)) = [str ''0xab'']" for c1
    unfolding fresh_runs_Cons
  proof (intro conjI allI impI)
    show "case Refresh of
        RunAll env \<Rightarrow> runner_ids_fresh env (recentTransactions (viewState c1))
      | _ \<Rightarrow> True"
      by simp
    fix q c2 assume "step_event sample_deps Refresh c1 = Some (q, c2)"
    then have "map txid (recentTransactions (viewState c2)) = [str ''0xab'']"
      using m by (simp only: step_refresh_txids)
    then show "case RunAll (sample_env run_two) of
        RunAll env \<Rightarrow> runner_ids_fresh env (recentTransactions (viewState c2))
      | _ \<Rightarrow> True"
      by (simp add: f2)
    fix q' c3 show "fresh_runs sample_deps [] c3"
      by simp
  qed
  have s1: "case step_event sample_deps (RunAll (sample_env run_ok)) sample_controller of
      None \<Rightarrow> False
    | Some (q, c1) \<Rightarrow> map txid (recentTransactions (viewState c1)) = [str ''0xab'']"
    by code_simp
  have f: "fresh_runs sample_deps ?es sample_controller"
    unfolding fresh_runs_Cons [of _ "RunAll (sample_env run_ok)"]
  proof (intro conjI allI impI)
    show "case RunAll (sample_env run_ok) of
        RunAll env \<Rightarrow> runner_ids_fresh env (recentTransactions (viewState sample_controller))
      | _ \<Rightarrow> True"
      using f1 by simp
    fix q c1
    assume "step_event sample_deps (RunAll (sample_env run_ok)) sample_controller = Some (q, c1)"
    then have "map txid (recentTransactions (viewState c1)) = [str ''0xab'']"
      using s1 by simp
    then show "fresh_runs sample_deps [Refresh, RunAll (sample_env run_two)] c1"
      by (rule f3)
  qed
  have "distinct (map txid (recentTransactions (viewState c')))"
    using d f r by (rule txids_distinct_when_runner_ids_fresh)
  then show ?thesis
    using r t f d by simp
qed

text \<open>
  The claim as written fails as soon as a runner reports an id a second time: two runs
  whose runner prints \<open>0xab\<close> leave two entries with that id.
\<close>

theorem repeated_txid_counterexample:
  "observe (run_events sample_deps [RunAll (sample_env run_ok), RunAll (sample_env run_ok)]
      sample_controller)
     = Some ([], [(str ''0xab'', Pending), (str ''0xab'', Pending)])
   \<and> \<not> distinct (map fst [(str ''0xab'', Pending), (str ''0xab'', Pending)])"
  by code_simp

text \<open>
  With nodes that report a \<open>vmstate\<close> only together with confirmations, every entry that
  is not \<open>Pending\<close> carries its confirmations, in every state a run of events reaches,
  so that no later poll cycle asks for such an entry or changes it.
\<close>

lemma run_connected_settled:
  assumes "list_all settled_is_confirmed (recentTransactions (viewState c))"
  shows "list_all settled_is_confirmed (recentTransactions (viewState (run_connected env path c)))"
proof -
  have "list_all settled_is_confirmed (truncate_recent (unshift_all name ids
      (recentTransactions (viewState c))))" for name ids
  proof -
    have "list_all settled_is_confirmed
        (rev (map (pending_transaction name) ids) @ recentTransactions (viewState c))"
      using assms by (auto simp: list_all_iff settled_is_confirmed_def pending_transaction_def)
    then have "list_all settled_is_confirmed (take MAX_RECENT_TXS
        (rev (map (pending_transaction name) ids) @ recentTransactions (viewState c)))"
      unfolding list_all_iff by (meson in_set_takeD)
    then show ?thesis
      by (simp only: truncate_recent_eq unshift_all_eq)
  qed
  then show ?thesis
    using assms by (simp add: run_connected_def Let_def split: option.splits)
qed

lemma run_connected_connection:
  "activeConnection (run_connected env path c) = activeConnection c"
  by (simp add: run_connected_def Let_def split: option.splits)

lemma periodic_settled:
  assumes "periodicViewStateUpdate D c = Some (err, queries, c')"
    and "reports_confirmations (activeConnection c)"
    and "list_all settled_is_confirmed (recentTransactions (viewState c))"
  shows "list_all settled_is_confirmed (recentTransactions (viewState c'))"
    and "activeConnection c' = activeConnection c"
proof -
  show "list_all settled_is_confirmed (recentTransactions (viewState c'))"
  proof (cases err)
    case None
    then show ?thesis
      using periodic_result(2) [OF assms(1)] assms(3)
      by (auto simp: list_all_iff intro: poll_entry_settled [OF assms(2)])
  next
    case (Some e)
    then show ?thesis
      using periodic_result(3) [OF assms(1)] assms(3) by simp
  qed
  show "activeConnection c' = activeConnection c"
    by (rule periodic_result(4) [OF assms(1)])
qed

lemma step_event_settled:
  assumes "step_event D e c = Some (queries, c')"
    and "honest_event e" "reports_confirmations (activeConnection c)"
    and "list_all settled_is_confirmed (recentTransactions (viewState c))"
  shows "list_all settled_is_confirmed (recentTransactions (viewState c'))
       \<and> reports_confirmations (activeConnection c')"
proof (cases e)
  case (DocumentChanged t)
  then show ?thesis
    using assms by (auto simp: onFileUpdate_recent onFileUpdate_def split: sum.splits)
next
  case Refresh
  then show ?thesis
    using assms by (auto split: if_splits option.splits dest: periodic_settled)
next
  case (RunAll env)
  show ?thesis
  proof (cases "activeConnection c")
    case (Some conn)
    then have "c' = run_connected env (fsPath (document c)) c"
      using assms(1) RunAll by (simp add: runFile_def)
    then show ?thesis
      using assms(3,4) by (simp add: run_connected_settled run_connected_connection)
  next
    case None
    let ?c0 = "c\<lparr>activeConnection := connect env\<rparr>"
    from None obtain e1 q1 c1 where
      p: "periodicViewStateUpdate D ?c0 = Some (e1, q1, c1)"
      and c': "c' = c1 \<or> c' = run_connected env (fsPath (document c)) c1"
      using assms(1) RunAll by (auto simp: runFile_def split: option.splits)
    have "list_all settled_is_confirmed (recentTransactions (viewState c1))"
      and "activeConnection c1 = connect env"
      using periodic_settled [OF p] assms(2,4) RunAll by simp_all
    then show ?thesis
      using c' assms(2) RunAll
      by (auto simp: run_connected_settled run_connected_connection)
  qed
next
  case (ConnectionChanged k)
  then show ?thesis
    using assms by auto
qed

lemma settled_entries_stay_confirmed:
  assumes "run_events D es c = Some (queries, c')"
    and "list_all honest_event es" "reports_confirmations (activeConnection c)"
    and "list_all settled_is_confirmed (recentTransactions (viewState c))"
  shows "list_all settled_is_confirmed (recentTransactions (viewState c'))"
  using assms
proof (induction es arbitrary: c queries)
  case Nil
  then show ?case by simp
next
  case (Cons e es)
  from Cons.prems(1) obtain q1 c1 q2 where
    s: "step_event D e c = Some (q1, c1)" and r: "run_events D es c1 = Some (q2, c')"
    by (auto split: option.splits)
  have "list_all settled_is_confirmed (recentTransactions (viewState c1))
      \<and> reports_confirmations (activeConnection c1)"
    using s Cons.prems(2-4) by (intro step_event_settled [of D e c q1 c1]) simp_all
  then show ?case
    using r Cons.prems(2) by (intro Cons.IH [of c1 q2]) simp_all
qed

section \<open>Properties of augmentAutoCompleteData\<close>

lemma alias_loop_tail:
  assumes "\<forall>j. i \<le> j \<and> j < length paths \<longrightarrow> \<not> path_isAbsolute D (paths ! j)"
  shows "alias_loop D b a i paths h = Some (paths, h)"
  using assms
proof (induction "length paths - i" arbitrary: i)
  case 0
  then show ?case
    by (subst alias_loop.simps) simp
next
  case (Suc n)
  then have "i < length paths" "\<not> path_isAbsolute D (paths ! i)"
    by auto
  moreover have "alias_loop D b a (Suc i) paths h = Some (paths, h)"
    using Suc by (intro Suc.hyps(1)) auto
  ultimately show ?case
    by (subst alias_loop.simps) simp
qed

lemma alias_loop_total:
  assumes "relative_never_absolute D" "\<forall>x \<in> set added. \<not> path_isAbsolute D x"
  shows "\<exists>paths' h'. alias_loop D b a (length pre) (pre @ rest @ added) h = Some (paths', h')
           \<and> pathsObjs h' = pathsObjs h \<and> manifestsObjs h' = manifestsObjs h
           \<and> nextAddr h' = nextAddr h
           \<and> (\<forall>x. x \<noteq> a \<longrightarrow> hashesObjs h' x = hashesObjs h x)"
  using assms(2)
proof (induction rest arbitrary: pre added h)
  case Nil
  have "\<forall>j. length pre \<le> j \<and> j < length (pre @ added) \<longrightarrow>
      \<not> path_isAbsolute D ((pre @ added) ! j)"
    using Nil by (auto simp: nth_append)
  then have "alias_loop D b a (length pre) (pre @ added) h = Some (pre @ added, h)"
    by (rule alias_loop_tail)
  then show ?case by simp
next
  case (Cons r rs)
  let ?paths = "pre @ (r # rs) @ added"
  have i: "length pre < length ?paths" "?paths ! length pre = r"
    by simp_all
  show ?case
  proof (cases "path_isAbsolute D r")
    case True
    let ?h = "h\<lparr>hashesObjs := (hashesObjs h)
        (a := dict_set (hashesObjs h a) (path_relative D b r) (hash_lookup (hashesObjs h a) r))\<rparr>"
    have n: "\<forall>x \<in> set (added @ [path_relative D b r]). \<not> path_isAbsolute D x"
      using Cons.prems assms(1) by (auto simp: relative_never_absolute_def)
    have s: "alias_loop D b a (length pre) ?paths h =
        alias_loop D b a (length (pre @ [r])) ((pre @ [r]) @ rs @ (added @ [path_relative D b r])) ?h"
      using True i by (subst alias_loop.simps) simp
    from Cons.IH [OF n, of "pre @ [r]" ?h] show ?thesis
      unfolding s by auto
  next
    case False
    have s: "alias_loop D b a (length pre) ?paths h =
        alias_loop D b a (length (pre @ [r])) ((pre @ [r]) @ rs @ added) h"
      using False i by (subst alias_loop.simps) simp
    from Cons.IH [OF Cons.prems, of "pre @ [r]" h] show ?thesis
      unfolding s by auto
  qed
qed

lemma paths_loop_total:
  assumes "relative_never_absolute D"
  shows "\<exists>h'. paths_loop D b data result keys h = Some h'
           \<and> manifestsObjs h' = manifestsObjs h \<and> nextAddr h' = nextAddr h
           \<and> (\<forall>x. x \<noteq> contractPaths result \<longrightarrow> pathsObjs h' x = pathsObjs h x)
           \<and> (\<forall>x. x \<noteq> contractHashes result \<longrightarrow> hashesObjs h' x = hashesObjs h x)"
proof (induction keys arbitrary: h)
  case Nil
  then show ?case by simp
next
  case (Cons k ks)
  let ?ps = "case dict_get (pathsObjs h (contractPaths data)) k of None \<Rightarrow> [] | Some ps \<Rightarrow> ps"
  from alias_loop_total [OF assms, of "[]" b "contractHashes result" "[]" ?ps h]
  obtain paths' h1 where
    a: "alias_loop D b (contractHashes result) 0 ?ps h = Some (paths', h1)"
    and f: "pathsObjs h1 = pathsObjs h" "manifestsObjs h1 = manifestsObjs h"
      "nextAddr h1 = nextAddr h"
      "\<forall>x. x \<noteq> contractHashes result \<longrightarrow> hashesObjs h1 x = hashesObjs h x"
    by auto
  let ?h2 = "h1\<lparr>pathsObjs := (pathsObjs h1)
      (contractPaths result :=
         dict_set (pathsObjs h1 (contractPaths result)) k (dedupeAndSort D paths'))\<rparr>"
  from Cons.IH [of ?h2] obtain h' where
    "paths_loop D b data result ks ?h2 = Some h'"
    "manifestsObjs h' = manifestsObjs ?h2" "nextAddr h' = nextAddr ?h2"
    "\<forall>x. x \<noteq> contractPaths result \<longrightarrow> pathsObjs h' x = pathsObjs ?h2 x"
    "\<forall>x. x \<noteq> contractHashes result \<longrightarrow> hashesObjs h' x = hashesObjs ?h2 x"
    by auto
  then show ?case
    using a f by simp
qed

lemma manifests_loop_eq:
  "manifestsObjs (manifests_loop rpc a hs h) =
     (manifestsObjs h)(a := store_manifests (fetched rpc hs) (manifestsObjs h a))
   \<and> pathsObjs (manifests_loop rpc a hs h) = pathsObjs h
   \<and> hashesObjs (manifests_loop rpc a hs h) = hashesObjs h
   \<and> nextAddr (manifests_loop rpc a hs h) = nextAddr h"
proof (induction hs arbitrary: h)
  case Nil
  then show ?case by (simp add: fetched_def)
next
  case (Cons x xs)
  show ?case
    by (cases "getContractState rpc x") (auto simp: Cons fetched_def fun_eq_iff)
qed

lemma dict_get_set: "dict_get (dict_set d k v) k' = (if k' = k then Some v else dict_get d k')"
  by (induction d) (auto simp: dict_get_def)

lemma store_manifests_other:
  "k \<notin> abi_hash ` set ms \<Longrightarrow> dict_get (store_manifests ms d) k = dict_get d k"
  by (induction ms arbitrary: d) (auto simp: dict_get_set)

lemma store_manifests_present:
  assumes "m \<in> set ms"
  shows "\<exists>m'. dict_get (store_manifests ms d) (abi_hash m) = Some m'
           \<and> m' \<in> set ms \<and> abi_hash m' = abi_hash m"
  using assms
proof (induction ms arbitrary: d m)
  case Nil
  then show ?case by simp
next
  case (Cons x xs)
  show ?case
  proof (cases "abi_hash m \<in> abi_hash ` set xs")
    case True
    then obtain y where "y \<in> set xs" "abi_hash y = abi_hash m"
      by auto
    with Cons.IH [of y "dict_set d (abi_hash x) x"] show ?thesis
      by auto
  next
    case False
    then have "m = x"
      using Cons.prems by auto
    then show ?thesis
      using False by (simp add: store_manifests_other dict_get_set)
  qed
qed

lemma fetched_member:
  "x \<in> set hs \<Longrightarrow> getContractState rpc x = Inr m \<Longrightarrow> m \<in> set (fetched rpc hs)"
  by (force simp: fetched_def)

lemma fetched_only_successes:
  "fetched rpc hs = fetched rpc (filter (\<lambda>x. \<exists>m. getContractState rpc x = Inr m) hs)"
  by (induction hs) (auto simp: fetched_def split: sum.splits)

lemma augment_cases:
  assumes "relative_never_absolute D"
  shows "\<exists>ha pa h3.
           augmentAutoCompleteData D c data =
             (case activeConnection c of
                None \<Rightarrow> Some (Inr (data\<lparr>contractPaths := pa, contractHashes := ha\<rparr>), h3)
              | Some conn \<Rightarrow>
                  (case rpcClient conn of
                     None \<Rightarrow> Some (Inr (data\<lparr>contractPaths := pa, contractHashes := ha\<rparr>), h3)
                   | Some rpc \<Rightarrow>
                       (case contract_hashes (fileContents (viewState c)) of
                          Inl e \<Rightarrow> Some (Inl e, h3)
                        | Inr hashes \<Rightarrow>
                            Some (Inr (data\<lparr>contractPaths := pa, contractHashes := ha\<rparr>),
                              manifests_loop rpc (contractManifests data) hashes h3))))
         \<and> augmentAutoCompleteData D (c\<lparr>activeConnection := None\<rparr>) data =
             Some (Inr (data\<lparr>contractPaths := pa, contractHashes := ha\<rparr>), h3)
         \<and> pa = nextAddr (store c) \<and> ha = Suc (nextAddr (store c))
         \<and> manifestsObjs h3 = manifestsObjs (store c)
         \<and> (\<forall>x. x < nextAddr (store c) \<longrightarrow>
               pathsObjs h3 x = pathsObjs (store c) x \<and> hashesObjs h3 x = hashesObjs (store c) x)"
proof -
  let ?pa = "nextAddr (store c)"
  let ?h1 = "(store c)\<lparr>pathsObjs := (pathsObjs (store c))(?pa := pathsObjs (store c) (contractPaths data)),
      nextAddr := Suc ?pa\<rparr>"
  let ?ha = "Suc ?pa"
  let ?h2 = "?h1\<lparr>hashesObjs := (hashesObjs ?h1)(?ha := hashesObjs ?h1 (contractHashes data)),
      nextAddr := Suc ?ha\<rparr>"
  let ?result = "data\<lparr>contractPaths := ?pa, contractHashes := ?ha\<rparr>"
  from paths_loop_total [OF assms, of "path_dirname D (fsPath (document c))" data ?result
      "dict_keys (pathsObjs ?h2 (contractPaths data))" ?h2]
  obtain h3 where
    p: "paths_loop D (path_dirname D (fsPath (document c))) data ?result
          (dict_keys (pathsObjs ?h2 (contractPaths data))) ?h2 = Some h3"
    and f: "manifestsObjs h3 = manifestsObjs ?h2"
      "\<forall>x. x \<noteq> contractPaths ?result \<longrightarrow> pathsObjs h3 x = pathsObjs ?h2 x"
      "\<forall>x. x \<noteq> contractHashes ?result \<longrightarrow> hashesObjs h3 x = hashesObjs ?h2 x"
    by blast
  have 1: "augmentAutoCompleteData D c data =
      (case activeConnection c of
         None \<Rightarrow> Some (Inr ?result, h3)
       | Some conn \<Rightarrow>
           (case rpcClient conn of
              None \<Rightarrow> Some (Inr ?result, h3)
            | Some rpc \<Rightarrow>
                (case contract_hashes (fileContents (viewState c)) of
                   Inl e \<Rightarrow> Some (Inl e, h3)
                 | Inr hashes \<Rightarrow>
                     Some (Inr ?result, manifests_loop rpc (contractManifests data) hashes h3))))"
    using p by (simp add: augmentAutoCompleteData_def copy_paths_def copy_hashes_def Let_def
        split: option.splits sum.splits)
  have 2: "augmentAutoCompleteData D (c\<lparr>activeConnection := None\<rparr>) data = Some (Inr ?result, h3)"
    using p by (simp add: augmentAutoCompleteData_def copy_paths_def copy_hashes_def Let_def)
  have 3: "\<forall>x. x < nextAddr (store c) \<longrightarrow>
      pathsObjs h3 x = pathsObjs (store c) x \<and> hashesObjs h3 x = hashesObjs (store c) x"
    using f(2,3) by simp
  show ?thesis
    using 1 2 3 f(1) by (intro exI [of _ ?ha] exI [of _ ?pa] exI [of _ h3]) simp
qed

lemma sample_relative_never_absolute: "relative_never_absolute sample_deps"
proof -
  have "take 1 (dropWhile (\<lambda>ch. [ch] = str ''/'') s) \<noteq> str ''/''" for s
  proof (cases "dropWhile (\<lambda>ch. [ch] = str ''/'') s")
    case Nil
    then show ?thesis by (simp add: str_def del: dropWhile_eq_Nil_conv)
  next
    case (Cons x xs)
    then have "[x] \<noteq> str ''/''"
      using hd_dropWhile [of "\<lambda>ch. [ch] = str ''/''" s] by auto
    then show ?thesis using Cons by simp
  qed
  then show ?thesis
    by (simp add: relative_never_absolute_def sample_deps_def)
qed

text \<open>
  Failures of single queries and fetches. Let the path library never call a relative path
  absolute, let a client be connected, and let the steps of the file be such that the
  filter on their \<open>contract\<close> fields does not throw. Then a poll cycle completes;
  every entry of the list becomes what \<open>poll_entry\<close> makes of it, which depends on the
  node's answer for that entry's id only, and an entry whose query fails is kept as it is.
  And \<open>augmentAutoCompleteData\<close> returns its result; the path and hash dictionaries are
  those it produces without any connection; the manifest dictionary is the old one with
  every manifest that arrived stored in order, so a fetch that fails leaves out its own
  manifest only.
\<close>

lemma isolation_when_filter_passes:
  assumes "relative_never_absolute D"
    and "activeConnection c = Some conn" "rpcClient conn = Some rpc"
    and "contract_hashes (fileContents (viewState c)) = Inr hashes"
  shows "(\<exists>queries c'. periodicViewStateUpdate D c = Some (None, queries, c')
          \<and> length (recentTransactions (viewState c')) = length (recentTransactions (viewState c))
          \<and> (\<forall>i < length (recentTransactions (viewState c)).
                recentTransactions (viewState c') ! i =
                  snd (poll_entry (Some conn) (recentTransactions (viewState c) ! i))
                \<and> ((\<exists>e. getRawTransaction rpc (txid (recentTransactions (viewState c) ! i)) = Inl e)
                     \<longrightarrow> recentTransactions (viewState c') ! i
                           = recentTransactions (viewState c) ! i)))
       \<and> (\<forall>t conn2 rpc2. rpcClient conn2 = Some rpc2
             \<and> getRawTransaction rpc2 (txid t) = getRawTransaction rpc (txid t)
             \<longrightarrow> poll_entry (Some conn2) t = poll_entry (Some conn) t)
       \<and> (\<exists>result h h0.
            augmentAutoCompleteData D c data = Some (Inr result, h)
          \<and> augmentAutoCompleteData D (c\<lparr>activeConnection := None\<rparr>) data = Some (Inr result, h0)
          \<and> pathsObjs h = pathsObjs h0 \<and> hashesObjs h = hashesObjs h0
          \<and> manifestsObjs h (contractManifests result) =
              store_manifests (fetched rpc hashes) (manifestsObjs h0 (contractManifests result))
          \<and> fetched rpc hashes =
              fetched rpc (filter (\<lambda>x. \<exists>m. getContractState rpc x = Inr m) hashes)
          \<and> (\<forall>x \<in> set hashes. \<forall>m. getContractState rpc x = Inr m \<longrightarrow>
                (\<exists>m'. dict_get (manifestsObjs h (contractManifests result)) (abi_hash m) = Some m'
                   \<and> m' \<in> set (fetched rpc hashes) \<and> abi_hash m' = abi_hash m)))"
proof (intro conjI)
  let ?rts = "recentTransactions (viewState c)"
  from augment_cases [OF assms(1), of c "autoCompleteBase c"] assms(2-4)
  obtain r h where a: "augmentAutoCompleteData D c (autoCompleteBase c) = Some (Inr r, h)"
    by auto
  let ?c' = "c\<lparr>store := h, viewState := (viewState c)
      \<lparr>autoCompleteData := r,
       recentTransactions := map snd (map (poll_entry (activeConnection c)) ?rts)\<rparr>\<rparr>"
  have p: "periodicViewStateUpdate D c =
      Some (None, concat (map fst (map (poll_entry (activeConnection c)) ?rts)), ?c')"
    using a by (simp add: periodicViewStateUpdate_def Let_def)
  have "recentTransactions (viewState ?c') ! i = ?rts ! i"
    if "i < length ?rts" "getRawTransaction rpc (txid (?rts ! i)) = Inl e" for i e
    using that assms(2,3) poll_entry_failure [of "Some conn" conn rpc "?rts ! i" e]
      poll_entry_confirmed [of "?rts ! i" "Some conn"]
    by (cases "has_confirmations (?rts ! i)") simp_all
  then show "\<exists>queries c'. periodicViewStateUpdate D c = Some (None, queries, c')
      \<and> length (recentTransactions (viewState c')) = length ?rts
      \<and> (\<forall>i < length ?rts.
            recentTransactions (viewState c') ! i = snd (poll_entry (Some conn) (?rts ! i))
            \<and> ((\<exists>e. getRawTransaction rpc (txid (?rts ! i)) = Inl e)
                 \<longrightarrow> recentTransactions (viewState c') ! i = ?rts ! i))"
    unfolding p using assms(2)
    by (intro exI [of _ "concat (map fst (map (poll_entry (activeConnection c)) ?rts))"]
        exI [of _ ?c']) auto
next
  show "\<forall>t conn2 rpc2. rpcClient conn2 = Some rpc2
      \<and> getRawTransaction rpc2 (txid t) = getRawTransaction rpc (txid t)
      \<longrightarrow> poll_entry (Some conn2) t = poll_entry (Some conn) t"
    using assms(3) by (auto simp: poll_entry_def query_transaction_def)
next
  from augment_cases [OF assms(1), of c data] assms(2-4)
  obtain pa ha h3 where
    a: "augmentAutoCompleteData D c data =
        Some (Inr (data\<lparr>contractPaths := pa, contractHashes := ha\<rparr>),
          manifests_loop rpc (contractManifests data) hashes h3)"
    and b: "augmentAutoCompleteData D (c\<lparr>activeConnection := None\<rparr>) data =
        Some (Inr (data\<lparr>contractPaths := pa, contractHashes := ha\<rparr>), h3)"
    by auto
  let ?result = "data\<lparr>contractPaths := pa, contractHashes := ha\<rparr>"
  let ?h = "manifests_loop rpc (contractManifests data) hashes h3"
  note m = manifests_loop_eq [of rpc "contractManifests data" hashes h3]
  have s: "manifestsObjs ?h (contractManifests ?result) =
      store_manifests (fetched rpc hashes) (manifestsObjs h3 (contractManifests ?result))"
    using m by simp
  have "\<exists>m'. dict_get (manifestsObjs ?h (contractManifests ?result)) (abi_hash m) = Some m'
      \<and> m' \<in> set (fetched rpc hashes) \<and> abi_hash m' = abi_hash m"
    if "x \<in> set hashes" "getContractState rpc x = Inr m" for x m
    unfolding s using that by (intro store_manifests_present fetched_member)
  then show "\<exists>result h h0.
        augmentAutoCompleteData D c data = Some (Inr result, h)
      \<and> augmentAutoCompleteData D (c\<lparr>activeConnection := None\<rparr>) data = Some (Inr result, h0)
      \<and> pathsObjs h = pathsObjs h0 \<and> hashesObjs h = hashesObjs h0
      \<and> manifestsObjs h (contractManifests result) =
          store_manifests (fetched rpc hashes) (manifestsObjs h0 (contractManifests result))
      \<and> fetched rpc hashes =
          fetched rpc (filter (\<lambda>x. \<exists>m. getContractState rpc x = Inr m) hashes)
      \<and> (\<forall>x \<in> set hashes. \<forall>m. getContractState rpc x = Inr m \<longrightarrow>
            (\<exists>m'. dict_get (manifestsObjs h (contractManifests result)) (abi_hash m) = Some m'
               \<and> m' \<in> set (fetched rpc hashes) \<and> abi_hash m' = abi_hash m))"
    using a b s m fetched_only_successes [of rpc hashes]
    by (intro exI [of _ ?result] exI [of _ ?h] exI [of _ h3]) simp
qed

lemma isolation_when_filter_passes_example:
  "relative_never_absolute sample_deps
   \<and> contract_hashes (fileContents (viewState mixed_controller)) = Inr [str ''0xbad'', str ''0xc0de'']
   \<and> getRawTransaction mixed_rpc (str ''0x1'') = Inl RpcFailure
   \<and> getContractState mixed_rpc (str ''0xbad'') = Inl RpcFailure
   \<and> (\<exists>queries c'. periodicViewStateUpdate sample_deps mixed_controller
          = Some (None, queries, c')
        \<and> recentTransactions (viewState c') ! 0 = pending_transaction (str ''net'') (str ''0x1''))
   \<and> observe (run_events sample_deps [Refresh] mixed_controller)
       = Some ([str ''0x1'', str ''0x2''], [(str ''0x1'', Pending), (str ''0x2'', Ok)])
   \<and> (case augmentAutoCompleteData sample_deps mixed_controller sample_data of
         None \<Rightarrow> False
       | Some (r, h) \<Rightarrow>
           r = Inr \<lparr>contractPaths = 3, contractHashes = 4, contractManifests = 2\<rparr>
           \<and> pathsObjs h 3 =
               [(str ''0xc0de'', [str ''/w/contracts/token.nef'', str ''contracts/token.nef''])]
           \<and> hashesObjs h 4 =
               [(str ''/w/contracts/token.nef'', JStr (str ''0xc0de'')),
                (str ''contracts/token.nef'', JStr (str ''0xc0de''))]
           \<and> manifestsObjs h 2 =
               [(str ''0xc0de'', \<lparr>abi_hash = str ''0xc0de'', manifest_json = JObj []\<rparr>)])"
proof -
  let ?conn = "sample_connection\<lparr>rpcClient := Some mixed_rpc\<rparr>"
  let ?rts = "recentTransactions (viewState mixed_controller)"
  have n: "relative_never_absolute sample_deps"
    by (rule sample_relative_never_absolute)
  have k: "activeConnection mixed_controller = Some ?conn"
    by (simp add: mixed_controller_def)
  have r: "rpcClient ?conn = Some mixed_rpc"
    by simp
  have hs: "contract_hashes (fileContents (viewState mixed_controller))
      = Inr [str ''0xbad'', str ''0xc0de'']"
    by code_simp
  have rts: "?rts = [pending_transaction (str ''net'') (str ''0x1''), pending_transaction (str ''net'') (str ''0x2'')]"
    by (simp add: mixed_controller_def initial_viewState_def)
  have f: "getRawTransaction mixed_rpc (str ''0x1'') = Inl RpcFailure"
    "getContractState mixed_rpc (str ''0xbad'') = Inl RpcFailure"
    by (simp_all add: mixed_rpc_def)
  from isolation_when_filter_passes [OF n k r hs, of sample_data]
  obtain queries c' where
    p: "periodicViewStateUpdate sample_deps mixed_controller = Some (None, queries, c')"
    and e: "\<forall>i < length ?rts.
        recentTransactions (viewState c') ! i = snd (poll_entry (Some ?conn) (?rts ! i))
        \<and> ((\<exists>e. getRawTransaction mixed_rpc (txid (?rts ! i)) = Inl e)
             \<longrightarrow> recentTransactions (viewState c') ! i = ?rts ! i)"
    by blast
  have "recentTransactions (viewState c') ! 0 = ?rts ! 0"
    using e [rule_format, of 0, THEN conjunct2] f(1) by (simp add: rts txid_pending)
  then have 1: "\<exists>queries c'. periodicViewStateUpdate sample_deps mixed_controller
        = Some (None, queries, c')
      \<and> recentTransactions (viewState c') ! 0 = pending_transaction (str ''net'') (str ''0x1'')"
    using p by (simp add: rts)
  have 2: "observe (run_events sample_deps [Refresh] mixed_controller)
      = Some ([str ''0x1'', str ''0x2''], [(str ''0x1'', Pending), (str ''0x2'', Ok)])"
    by code_simp
  have 3: "case augmentAutoCompleteData sample_deps mixed_controller sample_data of
         None \<Rightarrow> False
       | Some (r, h) \<Rightarrow>
           r = Inr \<lparr>contractPaths = 3, contractHashes = 4, contractManifests = 2\<rparr>
           \<and> pathsObjs h 3 =
               [(str ''0xc0de'', [str ''/w/contracts/token.nef'', str ''contracts/token.nef''])]
           \<and> hashesObjs h 4 =
               [(str ''/w/contracts/token.nef'', JStr (str ''0xc0de'')),
                (str ''contracts/token.nef'', JStr (str ''0xc0de''))]
           \<and> manifestsObjs h 2 =
               [(str ''0xc0de'', \<lparr>abi_hash = str ''0xc0de'', manifest_json = JObj []\<rparr>)]"
    by code_simp
  show ?thesis
    using n hs f 1 2 3 by blast
qed

text \<open>
  The store after \<open>augmentAutoCompleteData\<close>, for any input: the objects that
  \<open>data.contractPaths\<close> and \<open>data.contractHashes\<close> refer to are as before the call,
  since the function works on copies of them; the object \<open>data.contractManifests\<close>
  refers to is shared with the result and receives every manifest that arrives.
\<close>

lemma augment_store:
  assumes "relative_never_absolute D"
    and "contractPaths data < nextAddr (store c)" "contractHashes data < nextAddr (store c)"
    and "augmentAutoCompleteData D c data = Some (r, h)"
  shows "pathsObjs h (contractPaths data) = pathsObjs (store c) (contractPaths data)"
    and "hashesObjs h (contractHashes data) = hashesObjs (store c) (contractHashes data)"
    and "\<And>conn rpc hashes.
           activeConnection c = Some conn \<Longrightarrow> rpcClient conn = Some rpc \<Longrightarrow>
           contract_hashes (fileContents (viewState c)) = Inr hashes \<Longrightarrow>
           (\<exists>result. r = Inr result \<and> contractManifests result = contractManifests data)
           \<and> manifestsObjs h (contractManifests data) =
               store_manifests (fetched rpc hashes)
                 (manifestsObjs (store c) (contractManifests data))"
proof -
  from augment_cases [OF assms(1), of c data]
  obtain ha pa h3 where
    a: "augmentAutoCompleteData D c data =
        (case activeConnection c of
           None \<Rightarrow> Some (Inr (data\<lparr>contractPaths := pa, contractHashes := ha\<rparr>), h3)
         | Some conn \<Rightarrow>
             (case rpcClient conn of
                None \<Rightarrow> Some (Inr (data\<lparr>contractPaths := pa, contractHashes := ha\<rparr>), h3)
              | Some rpc \<Rightarrow>
                  (case contract_hashes (fileContents (viewState c)) of
                     Inl e \<Rightarrow> Some (Inl e, h3)
                   | Inr hashes \<Rightarrow>
                       Some (Inr (data\<lparr>contractPaths := pa, contractHashes := ha\<rparr>),
                         manifests_loop rpc (contractManifests data) hashes h3))))"
    and m: "manifestsObjs h3 = manifestsObjs (store c)"
    and f: "\<forall>x. x < nextAddr (store c) \<longrightarrow>
        pathsObjs h3 x = pathsObjs (store c) x \<and> hashesObjs h3 x = hashesObjs (store c) x"
    by blast
  have h: "pathsObjs h = pathsObjs h3 \<and> hashesObjs h = hashesObjs h3"
    using a assms(4) manifests_loop_eq
    by (auto split: option.splits sum.splits)
  show "pathsObjs h (contractPaths data) = pathsObjs (store c) (contractPaths data)"
    using h f assms(2) by simp
  show "hashesObjs h (contractHashes data) = hashesObjs (store c) (contractHashes data)"
    using h f assms(3) by simp
  show "(\<exists>result. r = Inr result \<and> contractManifests result = contractManifests data)
      \<and> manifestsObjs h (contractManifests data) =
          store_manifests (fetched rpc hashes)
            (manifestsObjs (store c) (contractManifests data))"
    if "activeConnection c = Some conn" "rpcClient conn = Some rpc"
      "contract_hashes (fileContents (viewState c)) = Inr hashes"
    for conn rpc hashes
  proof -
    have "r = Inr (data\<lparr>contractPaths := pa, contractHashes := ha\<rparr>)"
      and "h = manifests_loop rpc (contractManifests data) hashes h3"
      using a assms(4) that by simp_all
    then show ?thesis
      using manifests_loop_eq [of rpc "contractManifests data" hashes h3] m by simp
  qed
qed

text \<open>
  The alias loop with a path library for which the relative path of an absolute path can
  be absolute again (on Windows, \<open>path.relative\<close> of two paths on different drives is the
  second path itself): once the iterator stands before absolute paths only, every visit
  pushes one more absolute path, and the loop does not end. Then neither
  \<open>augmentAutoCompleteData\<close> nor the poll cycle returns.
\<close>

lemma alias_loop_never_ends:
  assumes "\<And>b p. path_isAbsolute D p \<Longrightarrow> path_isAbsolute D (path_relative D b p)"
    and "i < length paths"
    and "\<forall>j. i \<le> j \<and> j < length paths \<longrightarrow> path_isAbsolute D (paths ! j)"
  shows "alias_loop D b a i paths h = None"
proof (rule ccontr)
  assume "alias_loop D b a i paths h \<noteq> None"
  then obtain y where y: "alias_loop D b a i paths h = Some y"
    by auto
  have "\<not> ((\<forall>b p. path_isAbsolute D p \<longrightarrow> path_isAbsolute D (path_relative D b p))
      \<and> i < length paths
      \<and> (\<forall>j. i \<le> j \<and> j < length paths \<longrightarrow> path_isAbsolute D (paths ! j)))"
  proof (rule alias_loop.raw_induct [where P = "\<lambda>D b a i paths h y.
      \<not> ((\<forall>b p. path_isAbsolute D p \<longrightarrow> path_isAbsolute D (path_relative D b p))
      \<and> i < length paths
      \<and> (\<forall>j. i \<le> j \<and> j < length paths \<longrightarrow> path_isAbsolute D (paths ! j)))", OF _ y])
    fix loop D b a i paths h y
    assume IH: "\<And>D b a i paths h y. loop D b a i paths h = Some y \<Longrightarrow>
        \<not> ((\<forall>b p. path_isAbsolute D p \<longrightarrow> path_isAbsolute D (path_relative D b p))
          \<and> i < length paths
          \<and> (\<forall>j. i \<le> j \<and> j < length paths \<longrightarrow> path_isAbsolute D (paths ! j)))"
      and eq: "(if i < length paths then
          (if path_isAbsolute D (paths ! i) then
             loop D b a (Suc i) (paths @ [path_relative D b (paths ! i)])
               (h\<lparr>hashesObjs := (hashesObjs h)
                    (a := dict_set (hashesObjs h a) (path_relative D b (paths ! i))
                       (hash_lookup (hashesObjs h a) (paths ! i)))\<rparr>)
           else loop D b a (Suc i) paths h)
        else Some (paths, h)) = Some y"
    show "\<not> ((\<forall>b p. path_isAbsolute D p \<longrightarrow> path_isAbsolute D (path_relative D b p))
        \<and> i < length paths
        \<and> (\<forall>j. i \<le> j \<and> j < length paths \<longrightarrow> path_isAbsolute D (paths ! j)))"
    proof
      assume inv: "(\<forall>b p. path_isAbsolute D p \<longrightarrow> path_isAbsolute D (path_relative D b p))
        \<and> i < length paths
        \<and> (\<forall>j. i \<le> j \<and> j < length paths \<longrightarrow> path_isAbsolute D (paths ! j))"
      let ?r = "path_relative D b (paths ! i)"
      let ?h = "h\<lparr>hashesObjs := (hashesObjs h)
          (a := dict_set (hashesObjs h a) ?r (hash_lookup (hashesObjs h a) (paths ! i)))\<rparr>"
      have abs: "path_isAbsolute D (paths ! i)" "path_isAbsolute D ?r"
        using inv by auto
      have "loop D b a (Suc i) (paths @ [?r]) ?h = Some y"
        using eq inv abs(1) by simp
      then have "\<not> ((\<forall>b p. path_isAbsolute D p \<longrightarrow> path_isAbsolute D (path_relative D b p))
          \<and> Suc i < length (paths @ [?r])
          \<and> (\<forall>j. Suc i \<le> j \<and> j < length (paths @ [?r])
                \<longrightarrow> path_isAbsolute D ((paths @ [?r]) ! j)))"
        by (rule IH)
      moreover have "path_isAbsolute D ((paths @ [?r]) ! j)"
        if "Suc i \<le> j" "j < length (paths @ [?r])" for j
        using that inv abs(2) by (cases "j < length paths") (auto simp: nth_append)
      ultimately show False
        using inv by auto
    qed
  qed
  then show False
    using assms by blast
qed

lemma augment_never_returns:
  assumes "\<And>b p. path_isAbsolute D p \<Longrightarrow> path_isAbsolute D (path_relative D b p)"
    and "pathsObjs (store c) (contractPaths data) = (k, p # ps) # rest"
    and "\<forall>x \<in> set (p # ps). path_isAbsolute D x"
  shows "augmentAutoCompleteData D c data = None"
    and "autoCompleteBase c = data \<Longrightarrow> periodicViewStateUpdate D c = None"
proof -
  have "path_isAbsolute D ((p # ps) ! j)" if "j < length (p # ps)" for j
    using assms(3) that nth_mem [of j "p # ps"] by blast
  then have "alias_loop D b a 0 (p # ps) h = None" for b a h
    using assms(1) by (intro alias_loop_never_ends) auto
  then show a: "augmentAutoCompleteData D c data = None"
    using assms(2)
    by (simp add: augmentAutoCompleteData_def copy_paths_def copy_hashes_def Let_def
        dict_keys_def dict_get_def)
  show "periodicViewStateUpdate D c = None" if "autoCompleteBase c = data"
    using a that by (simp add: periodicViewStateUpdate_def Let_def)
qed

text \<open>
  Claim C8 does not hold of the code. Each transaction query and each manifest fetch sits
  in its own \<open>try\<close>, but the filter \<open>_.contract?.startsWith("0x")\<close> over the steps of the
  file does not, and an exception of \<open>augmentAutoCompleteData\<close> leaves the poll cycle
  before \<open>updateViewState\<close>. The controller \<open>broken_controller\<close> tracks the pending
  transactions \<open>0x1\<close> and \<open>0x2\<close>; its node fails on the query for \<open>0x1\<close> and reports
  \<open>0x2\<close> as confirmed; its file has the steps \<open>null\<close>, a call of \<open>0xbad\<close>, whose manifest
  fetch fails, and a call of \<open>0xc0de\<close>, whose manifest the node returns. The poll cycle
  asks the node about both transactions, ends with a \<open>TypeError\<close> and leaves both entries
  pending and the completion data as they were: the answer for \<open>0x2\<close> is lost.
  \<open>augmentAutoCompleteData\<close> throws before any fetch, so no manifest is stored and no
  completion data is returned. Without the step \<open>null\<close> (\<open>mixed_controller\<close>) the cycle
  completes and \<open>0x2\<close> becomes \<open>Ok\<close>. The same happens from \<open>mixed_controller\<close> once
  the document text is \<open>[null]\<close>.
\<close>

theorem malformed_step_breaks_isolation:
  "fileContents (viewState broken_controller) =
     [JNull, contract_step (str ''0xbad''), contract_step (str ''0xc0de'')]
   \<and> map (\<lambda>t. (txid t, state t)) (recentTransactions (viewState broken_controller)) =
       [(str ''0x1'', Pending), (str ''0x2'', Pending)]
   \<and> getRawTransaction mixed_rpc (str ''0x1'') = Inl RpcFailure
   \<and> getRawTransaction mixed_rpc (str ''0x2'') = Inr confirmed_tx
   \<and> getContractState mixed_rpc (str ''0xbad'') = Inl RpcFailure
   \<and> getContractState mixed_rpc (str ''0xc0de'') =
       Inr \<lparr>abi_hash = str ''0xc0de'', manifest_json = JObj []\<rparr>
   \<and> (case periodicViewStateUpdate sample_deps broken_controller of
         None \<Rightarrow> False
       | Some (e, queries, c') \<Rightarrow>
           e = Some TypeError
           \<and> queries = [str ''0x1'', str ''0x2'']
           \<and> viewState c' = viewState broken_controller
           \<and> manifestsObjs (store c') (contractManifests sample_data) = [])
   \<and> (case augmentAutoCompleteData sample_deps broken_controller sample_data of
         None \<Rightarrow> False
       | Some (r, h) \<Rightarrow>
           r = Inl TypeError \<and> manifestsObjs h (contractManifests sample_data) = [])
   \<and> (case periodicViewStateUpdate sample_deps mixed_controller of
         None \<Rightarrow> False
       | Some (e, queries, c') \<Rightarrow>
           e = None
           \<and> queries = [str ''0x1'', str ''0x2'']
           \<and> map (\<lambda>t. (txid t, state t)) (recentTransactions (viewState c')) =
               [(str ''0x1'', Pending), (str ''0x2'', Ok)]
           \<and> manifestsObjs (store c') (contractManifests sample_data) =
               [(str ''0xc0de'', \<lparr>abi_hash = str ''0xc0de'', manifest_json = JObj []\<rparr>)])
   \<and> observe (run_events sample_deps [DocumentChanged (Inr (str ''[null]'')), Refresh]
         mixed_controller) =
       Some ([str ''0x1'', str ''0x2''], [(str ''0x1'', Pending), (str ''0x2'', Pending)])"
  by code_simp

text \<open>
  Claim C3 does not hold of the code. On the controller \<open>mixed_controller\<close>, whose file
  names the contract \<open>0xc0de\<close> and whose node returns a manifest for it, the call
  \<open>augmentAutoCompleteData(data)\<close> returns completion data whose \<open>contractManifests\<close> is
  the very object of \<open>data\<close> (address 2), and that object, empty before the call, holds
  the fetched manifest afterwards. The objects behind \<open>data.contractPaths\<close> and
  \<open>data.contractHashes\<close> are unchanged: the result has copies of them (addresses 3
  and 4).
\<close>

theorem augment_mutates_shared_manifests:
  "(case augmentAutoCompleteData sample_deps mixed_controller sample_data of
      None \<Rightarrow> False
    | Some (r, h) \<Rightarrow>
        r = Inr \<lparr>contractPaths = 3, contractHashes = 4, contractManifests = 2\<rparr>
        \<and> contractManifests sample_data = 2
        \<and> manifestsObjs (store mixed_controller) (contractManifests sample_data) = []
        \<and> manifestsObjs h (contractManifests sample_data) =
            [(str ''0xc0de'', \<lparr>abi_hash = str ''0xc0de'', manifest_json = JObj []\<rparr>)]
        \<and> pathsObjs h (contractPaths sample_data) =
            pathsObjs (store mixed_controller) (contractPaths sample_data)
        \<and> hashesObjs h (contractHashes sample_data) =
            hashesObjs (store mixed_controller) (contractHashes sample_data))"
  by code_simp

end
